theory Spec2Isabelle
  imports Complex_Main
begin

section \<open>Numbers and arrays of the dashboard code\<close>

text \<open>
  The dashboard is JavaScript. Its numbers are modelled as real numbers (rounding of
  IEEE doubles is not modelled). An array slot that holds either a number or
  \<^verbatim>\<open>null\<close> is a \<open>real option\<close>, with \<open>None\<close> for \<^verbatim>\<open>null\<close>.
\<close>

text \<open>
  \<^verbatim>\<open>Array.prototype.slice(start, end)\<close>: a negative bound counts from the end of the
  array, both bounds are clamped to the array, and an empty range gives the empty array.
\<close>

definition slice :: "int \<Rightarrow> int \<Rightarrow> 'a list \<Rightarrow> 'a list" where
  "slice start fin xs =
     (let n = int (length xs);
          k = (if start < 0 then max (n + start) 0 else min start n);
          final = (if fin < 0 then max (n + fin) 0 else min fin n)
      in take (nat (final - k)) (drop (nat k) xs))"

text \<open>\<^verbatim>\<open>null\<close> used as an operand of \<^verbatim>\<open>-\<close> is coerced to the number 0.\<close>

definition toNumber :: "real option \<Rightarrow> real" where
  "toNumber v = (case v of None \<Rightarrow> 0 | Some x \<Rightarrow> x)"

text \<open>
  A field of the report data is a number or absent (\<^verbatim>\<open>undefined\<close>): a \<open>real option\<close>.
  A field that holds the JSON value \<^verbatim>\<open>null\<close>, or a string, is not modelled. A sub-record
  that is absent is replaced by \<^verbatim>\<open>{}\<close> in the source (\<^verbatim>\<open>data.valuation || {}\<close>),
  which is the record with every field absent.
\<close>

text \<open>Truthiness of a field: \<^verbatim>\<open>undefined\<close> and 0 are falsy.\<close>

definition truthy :: "real option \<Rightarrow> bool" where
  "truthy v = (case v of None \<Rightarrow> False | Some x \<Rightarrow> x \<noteq> 0)"

text \<open>
  \<^verbatim>\<open>a > b\<close> and \<^verbatim>\<open>a < b\<close> on fields: an absent operand converts to NaN and
  the comparison is false.
\<close>

definition js_gt :: "real option \<Rightarrow> real option \<Rightarrow> bool" where
  "js_gt a b = (case (a, b) of (Some x, Some y) \<Rightarrow> x > y | _ \<Rightarrow> False)"

definition js_lt :: "real option \<Rightarrow> real option \<Rightarrow> bool" where
  "js_lt a b = (case (a, b) of (Some x, Some y) \<Rightarrow> x < y | _ \<Rightarrow> False)"

definition js_times :: "real option \<Rightarrow> real \<Rightarrow> real option" where
  "js_times a c = map_option (\<lambda>x. x * c) a"

text \<open>
  Values computed by division can be infinite or NaN: the quotient by zero is
  \<open>\<plusminus>Infinity\<close>, or NaN for \<open>0 / 0\<close>. (The zero of a JSON document is \<open>+0\<close>.)
\<close>

datatype jsnum = Fin real | PosInf | NegInf | NaN

definition ToNumber :: "real option \<Rightarrow> jsnum" where
  "ToNumber v = (case v of None \<Rightarrow> NaN | Some x \<Rightarrow> Fin x)"

fun js_sub :: "jsnum \<Rightarrow> jsnum \<Rightarrow> jsnum" where
  "js_sub (Fin a) (Fin b) = Fin (a - b)"
| "js_sub NaN _ = NaN"
| "js_sub _ NaN = NaN"
| "js_sub PosInf PosInf = NaN"
| "js_sub NegInf NegInf = NaN"
| "js_sub PosInf _ = PosInf"
| "js_sub NegInf _ = NegInf"
| "js_sub (Fin a) PosInf = NegInf"
| "js_sub (Fin a) NegInf = PosInf"

definition js_sign :: "jsnum \<Rightarrow> int" where
  "js_sign x = (case x of Fin a \<Rightarrow> (if a < 0 then - 1 else 1) | PosInf \<Rightarrow> 1 | NegInf \<Rightarrow> - 1 | NaN \<Rightarrow> 1)"

definition signed_inf :: "int \<Rightarrow> jsnum" where
  "signed_inf s = (if s < 0 then NegInf else PosInf)"

fun js_div :: "jsnum \<Rightarrow> jsnum \<Rightarrow> jsnum" where
  "js_div NaN _ = NaN"
| "js_div _ NaN = NaN"
| "js_div (Fin a) (Fin b) =
     (if b \<noteq> 0 then Fin (a / b)
      else if a = 0 then NaN
      else signed_inf (js_sign (Fin a)))"
| "js_div (Fin a) _ = Fin 0"
| "js_div x (Fin b) = signed_inf (js_sign x * js_sign (Fin b))"
| "js_div _ _ = NaN"

fun js_mul :: "jsnum \<Rightarrow> jsnum \<Rightarrow> jsnum" where
  "js_mul NaN _ = NaN"
| "js_mul _ NaN = NaN"
| "js_mul (Fin a) (Fin b) = Fin (a * b)"
| "js_mul (Fin a) y = (if a = 0 then NaN else signed_inf (js_sign (Fin a) * js_sign y))"
| "js_mul x (Fin b) = (if b = 0 then NaN else signed_inf (js_sign x * js_sign (Fin b)))"
| "js_mul x y = signed_inf (js_sign x * js_sign y)"

definition js_abs :: "jsnum \<Rightarrow> jsnum" where
  "js_abs x = (case x of Fin a \<Rightarrow> Fin \<bar>a\<bar> | PosInf \<Rightarrow> PosInf | NegInf \<Rightarrow> PosInf | NaN \<Rightarrow> NaN)"

definition num_gt :: "jsnum \<Rightarrow> real \<Rightarrow> bool" where
  "num_gt x c = (case x of Fin a \<Rightarrow> a > c | PosInf \<Rightarrow> True | NegInf \<Rightarrow> False | NaN \<Rightarrow> False)"

definition num_lt :: "jsnum \<Rightarrow> real \<Rightarrow> bool" where
  "num_lt x c = (case x of Fin a \<Rightarrow> a < c | PosInf \<Rightarrow> False | NegInf \<Rightarrow> True | NaN \<Rightarrow> False)"

text \<open>
  \<^verbatim>\<open>Number.prototype.toFixed(d)\<close>, read back as a number (the source compares the
  resulting strings with numbers, which converts them back). The digits are those of
  the integer \<open>n\<close> nearest to \<open>\<bar>x\<bar> * 10^d\<close>, the larger one on a tie; from \<open>10^21\<close>
  on the number is printed unrounded.
\<close>

definition toFixed :: "nat \<Rightarrow> real \<Rightarrow> real" where
  "toFixed d x =
     (if \<bar>x\<bar> \<ge> 10 ^ 21 then x
      else sgn x * real_of_int \<lfloor>\<bar>x\<bar> * 10 ^ d + 1 / 2\<rfloor> / 10 ^ d)"

definition toFixed_num :: "nat \<Rightarrow> jsnum \<Rightarrow> jsnum" where
  "toFixed_num d x = (case x of Fin a \<Rightarrow> Fin (toFixed d a) | _ \<Rightarrow> x)"

section \<open>InteractiveStockChart.jsx: the indicator series\<close>

record PriceBar =
  date :: string
  open_price :: real
  high :: real
  low :: real
  close :: real
  volume :: real

text \<open>
  \<^verbatim>\<open>calculateMA(days)\<close> closes over the array \<open>close\<close>; here the array is the first
  argument. \<^verbatim>\<open>slice.reduce((a, b) => a + b, 0)\<close> is a left fold from 0. The source
  calls it with the constants 5, 20, 60 and 120 only, so \<open>days\<close> is never 0.
\<close>

definition calculateMA :: "real list \<Rightarrow> int \<Rightarrow> real option list" where
  "calculateMA closes days =
     map (\<lambda>idx.
        if int idx < days - 1 then None
        else (let sl = slice (int idx - days + 1) (int idx + 1) closes;
                  sm = foldl (\<lambda>a b. a + b) 0 sl
              in Some (sm / real_of_int days)))
       [0..<length closes]"

text \<open>
  \<^verbatim>\<open>calculateSTD(days, ma)\<close>: the population standard deviation of the window around
  \<open>ma[idx]\<close>. The array \<open>ma\<close> is always a \<open>calculateMA\<close> of the same closes, so it
  has the length of \<open>closes\<close> (lemma \<open>length_calculateMA\<close>) and \<open>ma ! idx\<close> is in range.
\<close>

definition calculateSTD :: "real list \<Rightarrow> int \<Rightarrow> real option list \<Rightarrow> real option list" where
  "calculateSTD closes days ma =
     map (\<lambda>idx.
        if int idx < days - 1 then None
        else (let avg = toNumber (ma ! idx);
                  sl = slice (int idx - days + 1) (int idx + 1) closes;
                  sumSquareDiff = foldl (\<lambda>a b. a + (b - avg)\<^sup>2) 0 sl
              in Some (sqrt (sumSquareDiff / real_of_int days))))
       [0..<length closes]"

definition upColor :: string where
  "upColor = ''#ef5350''"

definition downColor :: string where
  "downColor = ''#26a69a''"

record IndicatorSeries =
  dates :: "string list"
  opens :: "real list"
  highs :: "real list"
  lows :: "real list"
  closes :: "real list"
  volumes :: "real list"
  ma5 :: "real option list"
  ma20 :: "real option list"
  ma60 :: "real option list"
  ma120 :: "real option list"
  bollUp :: "real option list"
  bollDn :: "real option list"
  volColors :: "string list"

text \<open>
  One band value: \<^verbatim>\<open>(v !== null && std20[i] !== null) ? v + k * std20[i] : null\<close>,
  with \<open>k = 2\<close> for the upper and \<open>k = - 2\<close> for the lower band.
\<close>

definition boll :: "real \<Rightarrow> real option list \<Rightarrow> real option list \<Rightarrow> real option list" where
  "boll k ma std =
     map (\<lambda>i. case (ma ! i, std ! i) of
                 (Some v, Some s) \<Rightarrow> Some (v + k * s)
               | _ \<Rightarrow> None)
       [0..<length ma]"

text \<open>
  \<^verbatim>\<open>processedData\<close>: the argument is \<open>None\<close> when \<open>data\<close> is \<^verbatim>\<open>null\<close> or
  \<^verbatim>\<open>undefined\<close>; the result is \<open>None\<close> where the source returns \<^verbatim>\<open>null\<close>.
\<close>

definition processedData :: "PriceBar list option \<Rightarrow> IndicatorSeries option" where
  "processedData data =
     (case data of
        None \<Rightarrow> None
      | Some bars \<Rightarrow>
          if length bars = 0 then None
          else
            (let cl = map close bars;
                 m5 = calculateMA cl 5;
                 m20 = calculateMA cl 20;
                 m60 = calculateMA cl 60;
                 m120 = calculateMA cl 120;
                 std20 = calculateSTD cl 20 m20
             in Some \<lparr> dates = map date bars,
                       opens = map open_price bars,
                       highs = map high bars,
                       lows = map low bars,
                       closes = cl,
                       volumes = map volume bars,
                       ma5 = m5, ma20 = m20, ma60 = m60, ma120 = m120,
                       bollUp = boll 2 m20 std20,
                       bollDn = boll (- 2) m20 std20,
                       volColors =
                         map (\<lambda>i. if i = 0 then upColor
                                   else if cl ! i \<ge> cl ! (i - 1) then upColor
                                   else downColor)
                           [0..<length cl] \<rparr>))"

section \<open>api.js: AnalysisInsights\<close>

text \<open>
  The functions of \<open>AnalysisInsights\<close> close over the report data and the summary; here
  they take them as arguments. The labels and texts of the source are Chinese strings;
  they are named in English, one constructor for each string of the source.
\<close>

record Valuation =
  price :: "real option"
  pe_ttm :: "real option"
  dividend_yield :: "real option"
  dcf_margin_of_safety :: "real option"
  ddm_gordon :: "real option"
  ddm_two_stage :: "real option"

record Fundamentals =
  fundamentals_net_profit_yi :: "real option"

record CashFlow =
  latest_cfo_yi :: "real option"

text \<open>
  \<open>growth_momentum.summary\<close> is compared with four labels only; every other string,
  and the absent field, is \<open>OtherMomentum\<close>.
\<close>

datatype momentum =
    SustainedGrowth | AcceleratingGrowth | Declining | Recession | OtherMomentum

record AnnualPoint =
  revenue_yi :: "real option"
  net_profit_yi :: "real option"

record ReportData =
  valuation :: Valuation
  fundamentals :: Fundamentals
  growth_momentum :: momentum
  cash_flow :: CashFlow
  annual_trend :: "AnnualPoint list"

record Summary =
  roe :: "real option"
  gross_margin :: "real option"
  debt_ratio :: "real option"
  net_margin :: "real option"

subsection \<open>getValuationStatus\<close>

datatype valuation_label =
    Indeterminate | ClearlyUndervalued | RelativelyUndervalued
  | ClearlyOvervalued | RelativelyOvervalued | FairlyValued

record ValuationStatus =
  status :: valuation_label
  color :: string

definition getValuationStatus :: "ReportData \<Rightarrow> ValuationStatus" where
  "getValuationStatus data =
     (let dcfMargin = dcf_margin_of_safety (valuation data);
          ddmGordon = ddm_gordon (valuation data);
          ddmTwoStage = ddm_two_stage (valuation data);
          currentPrice = price (valuation data)
      in if \<not> truthy currentPrice
         then \<lparr> status = Indeterminate, color = ''var(--text-muted)'' \<rparr>
         else
          (let undervalued0 = (0::nat);
               overvalued0 = (0::nat);
               (undervalued1, overvalued1) =
                 (if js_gt dcfMargin (Some 20) then (undervalued0 + 1, overvalued0)
                  else if js_lt dcfMargin (Some (- 20)) then (undervalued0, overvalued0 + 1)
                  else (undervalued0, overvalued0));
               (undervalued2, overvalued2) =
                 (if truthy ddmGordon \<and> js_lt currentPrice (js_times ddmGordon (8 / 10))
                  then (undervalued1 + 1, overvalued1)
                  else if truthy ddmGordon \<and> js_gt currentPrice (js_times ddmGordon (12 / 10))
                  then (undervalued1, overvalued1 + 1)
                  else (undervalued1, overvalued1));
               (undervaluedCount, overvaluedCount) =
                 (if truthy ddmTwoStage \<and> js_lt currentPrice (js_times ddmTwoStage (8 / 10))
                  then (undervalued2 + 1, overvalued2)
                  else if truthy ddmTwoStage \<and> js_gt currentPrice (js_times ddmTwoStage (12 / 10))
                  then (undervalued2, overvalued2 + 1)
                  else (undervalued2, overvalued2))
           in if undervaluedCount \<ge> 2
              then \<lparr> status = ClearlyUndervalued, color = ''var(--color-success)'' \<rparr>
              else if undervaluedCount \<ge> 1
              then \<lparr> status = RelativelyUndervalued, color = ''var(--color-up)'' \<rparr>
              else if overvaluedCount \<ge> 2
              then \<lparr> status = ClearlyOvervalued, color = ''var(--color-down)'' \<rparr>
              else if overvaluedCount \<ge> 1
              then \<lparr> status = RelativelyOvervalued, color = ''var(--color-warning)'' \<rparr>
              else \<lparr> status = FairlyValued, color = ''var(--accent-primary)'' \<rparr>))"

subsection \<open>calcGrowthRate\<close>

text \<open>
  The two fields are the strings \<open>toFixed(1)\<close> returns; they are kept as the numbers
  the strings denote. The entries of \<open>annual_trend\<close> are objects, so \<^verbatim>\<open>!latest\<close> and
  \<^verbatim>\<open>!prev\<close> are false.
\<close>

record Growth =
  revenueGrowth :: jsnum
  profitGrowth :: jsnum

definition growthPct :: "real option \<Rightarrow> real option \<Rightarrow> jsnum" where
  "growthPct latest prev =
     toFixed_num 1
       (js_mul (js_div (js_sub (ToNumber latest) (ToNumber prev)) (ToNumber prev)) (Fin 100))"

definition calcGrowthRate :: "ReportData \<Rightarrow> Growth option" where
  "calcGrowthRate data =
     (let annualTrend = annual_trend data
      in if length annualTrend < 2 then None
         else
          (let latest = annualTrend ! (length annualTrend - 1);
               prev = annualTrend ! (length annualTrend - 2)
           in if \<not> truthy (revenue_yi prev) then None
              else Some \<lparr> revenueGrowth = growthPct (revenue_yi latest) (revenue_yi prev),
                          profitGrowth = growthPct (net_profit_yi latest) (net_profit_yi prev) \<rparr>))"

subsection \<open>getCashFlowHealth\<close>

datatype cash_flow_label = InsufficientData | Excellent | Good | Fair | Poor

datatype cash_flow_desc =
    NoDescription | CfoFarAboveProfit | CfoMatchesProfit | CfoBelowProfit | ProfitQualityDoubtful

record CashFlowHealth =
  cf_status :: cash_flow_label
  cf_color :: string
  cf_desc :: cash_flow_desc

definition getCashFlowHealth :: "ReportData \<Rightarrow> CashFlowHealth" where
  "getCashFlowHealth data =
     (let cfo = latest_cfo_yi (cash_flow data);
          netProfit = fundamentals_net_profit_yi (fundamentals data)
      in if \<not> truthy cfo \<or> \<not> truthy netProfit
         then \<lparr> cf_status = InsufficientData, cf_color = ''var(--text-muted)'',
                cf_desc = NoDescription \<rparr>
         else
          (let ratio = js_div (ToNumber cfo) (ToNumber netProfit)
           in if num_gt ratio (12 / 10)
              then \<lparr> cf_status = Excellent, cf_color = ''var(--color-success)'',
                     cf_desc = CfoFarAboveProfit \<rparr>
              else if num_gt ratio (8 / 10)
              then \<lparr> cf_status = Good, cf_color = ''var(--color-up)'',
                     cf_desc = CfoMatchesProfit \<rparr>
              else if num_gt ratio (5 / 10)
              then \<lparr> cf_status = Fair, cf_color = ''var(--color-warning)'',
                     cf_desc = CfoBelowProfit \<rparr>
              else \<lparr> cf_status = Poor, cf_color = ''var(--color-down)'',
                     cf_desc = ProfitQualityDoubtful \<rparr>))"

subsection \<open>generateHighlights\<close>

text \<open>
  The text of an item is one of a fixed set of templates; a template with a number in it
  carries the number as printed (\<open>toFixed\<close>).
\<close>

datatype highlight_text =
    RoeExcellent real | RoeStrong real
  | GrossMarginMoat real | GrossMarginCompetitive real
  | DebtVeryLow real | DebtHealthy real
  | RevenueHighGrowth jsnum | RevenueSteadyGrowth jsnum
  | TrendSustained | TrendAccelerating
  | DividendGenerous real
  | CashFlowQualityExcellent
  | PeLow real

record Highlight =
  highlight_text :: highlight_text
  priority :: int

text \<open>Each block of the source pushes at most one item; a block is the list it pushes.\<close>

definition highlight_roe :: "Summary \<Rightarrow> Highlight list" where
  "highlight_roe summary =
     (case roe summary of
        None \<Rightarrow> []
      | Some r \<Rightarrow>
          if r > 20 then [\<lparr> highlight_text = RoeExcellent (toFixed 1 r), priority = 1 \<rparr>]
          else if r > 15 then [\<lparr> highlight_text = RoeStrong (toFixed 1 r), priority = 2 \<rparr>]
          else [])"

definition highlight_gross_margin :: "Summary \<Rightarrow> Highlight list" where
  "highlight_gross_margin summary =
     (case gross_margin summary of
        None \<Rightarrow> []
      | Some g \<Rightarrow>
          if g > 50 then [\<lparr> highlight_text = GrossMarginMoat (toFixed 1 g), priority = 1 \<rparr>]
          else if g > 30
          then [\<lparr> highlight_text = GrossMarginCompetitive (toFixed 1 g), priority = 2 \<rparr>]
          else [])"

definition highlight_debt_ratio :: "Summary \<Rightarrow> Highlight list" where
  "highlight_debt_ratio summary =
     (case debt_ratio summary of
        None \<Rightarrow> []
      | Some d \<Rightarrow>
          if d < 30 then [\<lparr> highlight_text = DebtVeryLow (toFixed 1 d), priority = 1 \<rparr>]
          else if d < 50 then [\<lparr> highlight_text = DebtHealthy (toFixed 1 d), priority = 2 \<rparr>]
          else [])"

definition highlight_growth :: "Growth option \<Rightarrow> Highlight list" where
  "highlight_growth growth =
     (case growth of
        None \<Rightarrow> []
      | Some g \<Rightarrow>
          if num_gt (revenueGrowth g) 20
          then [\<lparr> highlight_text = RevenueHighGrowth (revenueGrowth g), priority = 1 \<rparr>]
          else if num_gt (revenueGrowth g) 10
          then [\<lparr> highlight_text = RevenueSteadyGrowth (revenueGrowth g), priority = 2 \<rparr>]
          else [])"

definition highlight_momentum :: "momentum \<Rightarrow> Highlight list" where
  "highlight_momentum m =
     (if m = SustainedGrowth then [\<lparr> highlight_text = TrendSustained, priority = 1 \<rparr>]
      else if m = AcceleratingGrowth
      then [\<lparr> highlight_text = TrendAccelerating, priority = 1 \<rparr>]
      else [])"

definition highlight_dividend :: "Valuation \<Rightarrow> Highlight list" where
  "highlight_dividend v =
     (case dividend_yield v of
        None \<Rightarrow> []
      | Some y \<Rightarrow>
          if y > 3 then [\<lparr> highlight_text = DividendGenerous (toFixed 2 y), priority = 2 \<rparr>]
          else [])"

definition highlight_cash_flow :: "CashFlowHealth \<Rightarrow> Highlight list" where
  "highlight_cash_flow cashFlowHealth =
     (if cf_status cashFlowHealth = Excellent
      then [\<lparr> highlight_text = CashFlowQualityExcellent, priority = 1 \<rparr>]
      else [])"

definition highlight_pe :: "Valuation \<Rightarrow> Highlight list" where
  "highlight_pe v =
     (case pe_ttm v of
        None \<Rightarrow> []
      | Some p \<Rightarrow>
          if p \<noteq> 0 \<and> p < 15 then [\<lparr> highlight_text = PeLow (toFixed 1 p), priority = 2 \<rparr>]
          else [])"

text \<open>
  \<^verbatim>\<open>Array.prototype.sort(cmp)\<close> is stable. With \<open>cmp a b = key a - key b\<close> on integer
  keys the comparator is a consistent order, and the result is the stable sort by the
  key: \<open>sort_key\<close>, the insertion sort of the library, which puts an element in front
  of the later elements of equal key.
\<close>

definition sort_by_difference :: "('a \<Rightarrow> int) \<Rightarrow> 'a list \<Rightarrow> 'a list" where
  "sort_by_difference key xs = sort_key key xs"

definition highlight_items :: "ReportData \<Rightarrow> Summary \<Rightarrow> Highlight list" where
  "highlight_items data summary =
     highlight_roe summary @ highlight_gross_margin summary @ highlight_debt_ratio summary @
     highlight_growth (calcGrowthRate data) @ highlight_momentum (growth_momentum data) @
     highlight_dividend (valuation data) @ highlight_cash_flow (getCashFlowHealth data) @
     highlight_pe (valuation data)"

definition generateHighlights :: "ReportData \<Rightarrow> Summary \<Rightarrow> Highlight list" where
  "generateHighlights data summary =
     slice 0 5 (sort_by_difference priority (highlight_items data summary))"

subsection \<open>generateRisks\<close>

datatype risk_level = HighRisk | MediumRisk

datatype risk_text =
    PeTooHigh real | PeHigh real
  | DcfBelowPrice real
  | RoeLow real
  | DebtTooHigh real | DebtHigh real
  | NetMarginThin real
  | RevenueFalling jsnum | ProfitFalling jsnum
  | CashFlowQualityPoor
  | TrendDown momentum

record Risk =
  risk_text :: risk_text
  level :: risk_level

definition risk_pe :: "Valuation \<Rightarrow> Risk list" where
  "risk_pe v =
     (case pe_ttm v of
        None \<Rightarrow> []
      | Some p \<Rightarrow>
          if p > 50 then [\<lparr> risk_text = PeTooHigh (toFixed 1 p), level = HighRisk \<rparr>]
          else if p > 30 then [\<lparr> risk_text = PeHigh (toFixed 1 p), level = MediumRisk \<rparr>]
          else [])"

definition risk_dcf :: "Valuation \<Rightarrow> Risk list" where
  "risk_dcf v =
     (case dcf_margin_of_safety v of
        None \<Rightarrow> []
      | Some m \<Rightarrow>
          if m < - 30 then [\<lparr> risk_text = DcfBelowPrice (toFixed 1 m), level = HighRisk \<rparr>]
          else [])"

definition risk_roe :: "Summary \<Rightarrow> Risk list" where
  "risk_roe summary =
     (case roe summary of
        None \<Rightarrow> []
      | Some r \<Rightarrow>
          if r \<noteq> 0 \<and> r < 8 then [\<lparr> risk_text = RoeLow (toFixed 1 r), level = MediumRisk \<rparr>]
          else [])"

definition risk_debt_ratio :: "Summary \<Rightarrow> Risk list" where
  "risk_debt_ratio summary =
     (case debt_ratio summary of
        None \<Rightarrow> []
      | Some d \<Rightarrow>
          if d > 70 then [\<lparr> risk_text = DebtTooHigh (toFixed 1 d), level = HighRisk \<rparr>]
          else if d > 60 then [\<lparr> risk_text = DebtHigh (toFixed 1 d), level = MediumRisk \<rparr>]
          else [])"

definition risk_net_margin :: "Summary \<Rightarrow> Risk list" where
  "risk_net_margin summary =
     (case net_margin summary of
        None \<Rightarrow> []
      | Some n \<Rightarrow>
          if n \<noteq> 0 \<and> n < 5
          then [\<lparr> risk_text = NetMarginThin (toFixed 1 n), level = HighRisk \<rparr>]
          else [])"

definition risk_growth :: "Growth option \<Rightarrow> Risk list" where
  "risk_growth growth =
     (case growth of
        None \<Rightarrow> []
      | Some g \<Rightarrow>
          if num_lt (revenueGrowth g) 0
          then [\<lparr> risk_text = RevenueFalling (js_abs (revenueGrowth g)), level = HighRisk \<rparr>]
          else if num_lt (profitGrowth g) 0
          then [\<lparr> risk_text = ProfitFalling (js_abs (profitGrowth g)), level = MediumRisk \<rparr>]
          else [])"

definition risk_cash_flow :: "CashFlowHealth \<Rightarrow> Risk list" where
  "risk_cash_flow cashFlowHealth =
     (if cf_status cashFlowHealth = Poor
      then [\<lparr> risk_text = CashFlowQualityPoor, level = HighRisk \<rparr>]
      else [])"

definition risk_momentum :: "momentum \<Rightarrow> Risk list" where
  "risk_momentum m =
     (if m = Declining \<or> m = Recession
      then [\<lparr> risk_text = TrendDown m, level = HighRisk \<rparr>]
      else [])"

definition risk_items :: "ReportData \<Rightarrow> Summary \<Rightarrow> Risk list" where
  "risk_items data summary =
     risk_pe (valuation data) @ risk_dcf (valuation data) @ risk_roe summary @
     risk_debt_ratio summary @ risk_net_margin summary @
     risk_growth (calcGrowthRate data) @ risk_cash_flow (getCashFlowHealth data) @
     risk_momentum (growth_momentum data)"

definition generateRisks :: "ReportData \<Rightarrow> Summary \<Rightarrow> Risk list" where
  "generateRisks data summary = slice 0 5 (risk_items data summary)"

section \<open>ChartEventBus\<close>

text \<open>
  A callback is a function object; the bus only ever compares callbacks by identity, so
  a callback is modelled by its identity. The bus holds a \<^verbatim>\<open>Map\<close> from event type to a
  \<^verbatim>\<open>Set\<close> object. Set objects live in a store, addressed by reference, since
  \<^verbatim>\<open>clear()\<close> empties the Map and leaves a Set that is being iterated untouched.
\<close>

type_synonym callback = nat

text \<open>
  The entries of a \<^verbatim>\<open>Set\<close>, in insertion order. \<^verbatim>\<open>add\<close> appends a value that is
  not in the set and does nothing otherwise; \<^verbatim>\<open>delete\<close> leaves an empty slot behind,
  so that a running iteration keeps its position.
\<close>

definition set_add :: "callback \<Rightarrow> callback option list \<Rightarrow> callback option list" where
  "set_add c entries = (if Some c \<in> set entries then entries else entries @ [Some c])"

definition set_delete :: "callback \<Rightarrow> callback option list \<Rightarrow> callback option list" where
  "set_delete c entries = map (\<lambda>e. if e = Some c then None else e) entries"

definition set_values :: "callback option list \<Rightarrow> callback list" where
  "set_values entries = List.map_filter (\<lambda>e. e) entries"

record ChartEventBus =
  listeners :: "string \<rightharpoonup> nat"
  store :: "nat \<Rightarrow> callback option list"
  next_ref :: nat

definition new_ChartEventBus :: ChartEventBus where
  "new_ChartEventBus = \<lparr> listeners = Map.empty, store = (\<lambda>_. []), next_ref = 0 \<rparr>"

text \<open>The function \<^verbatim>\<open>() => this.off(eventType, callback)\<close> that \<open>on\<close> returns.\<close>

datatype unsubscribe = Unsubscribe string callback

definition on :: "string \<Rightarrow> callback \<Rightarrow> ChartEventBus \<Rightarrow> unsubscribe \<times> ChartEventBus" where
  "on eventType cb bus =
     (let bus1 =
            (if listeners bus eventType = None
             then bus\<lparr> listeners := (listeners bus)(eventType \<mapsto> next_ref bus),
                       store := (store bus)(next_ref bus := []),
                       next_ref := Suc (next_ref bus) \<rparr>
             else bus);
          bus2 =
            (case listeners bus1 eventType of
               None \<Rightarrow> bus1
             | Some r \<Rightarrow> bus1\<lparr> store := (store bus1)(r := set_add cb (store bus1 r)) \<rparr>)
      in (Unsubscribe eventType cb, bus2))"

definition off :: "string \<Rightarrow> callback \<Rightarrow> ChartEventBus \<Rightarrow> ChartEventBus" where
  "off eventType cb bus =
     (case listeners bus eventType of
        None \<Rightarrow> bus
      | Some r \<Rightarrow> bus\<lparr> store := (store bus)(r := set_delete cb (store bus r)) \<rparr>)"

definition clear :: "ChartEventBus \<Rightarrow> ChartEventBus" where
  "clear bus = bus\<lparr> listeners := Map.empty \<rparr>"

fun call_unsubscribe :: "unsubscribe \<Rightarrow> ChartEventBus \<Rightarrow> ChartEventBus" where
  "call_unsubscribe (Unsubscribe eventType cb) bus = off eventType cb bus"

text \<open>The callbacks registered for an event type, in registration order.\<close>

definition registered :: "ChartEventBus \<Rightarrow> string \<Rightarrow> callback list" where
  "registered bus eventType =
     (case listeners bus eventType of None \<Rightarrow> [] | Some r \<Rightarrow> set_values (store bus r))"

text \<open>
  What a callback does when it is called, as far as the bus can tell: it calls methods of
  the bus, and then returns or throws. (A callback that calls \<open>emit\<close> itself is not
  modelled.)
\<close>

datatype action = On string callback | Off string callback | Clear

record handler =
  body :: "action list"
  throws :: bool

fun run_action :: "action \<Rightarrow> ChartEventBus \<Rightarrow> ChartEventBus" where
  "run_action (On eventType cb) bus = snd (on eventType cb bus)"
| "run_action (Off eventType cb) bus = off eventType cb bus"
| "run_action Clear bus = clear bus"

datatype completion = Returned | Threw

definition call :: "handler \<Rightarrow> ChartEventBus \<Rightarrow> completion \<times> ChartEventBus" where
  "call h bus = (if throws h then Threw else Returned, fold run_action (body h) bus)"

text \<open>
  The state a dispatch runs in: the bus, the calls made so far (callback and payload),
  and the callbacks whose error went to \<^verbatim>\<open>console.error\<close>.
\<close>

record 'p run =
  bus :: ChartEventBus
  calls :: "(callback \<times> 'p) list"
  console :: "callback list"

text \<open>
  \<^verbatim>\<open>Set.prototype.forEach\<close>: the loop walks the entries by position and reads the set
  again at every step, so it skips an entry deleted before it is reached and reaches an
  entry added while it runs. The loop need not end (two callbacks that delete and add one
  another keep it going), so it takes fuel: \<open>None\<close> is a dispatch that did not return
  within the fuel.
\<close>

fun forEach :: "nat \<Rightarrow> (callback \<Rightarrow> handler) \<Rightarrow> 'p \<Rightarrow> nat \<Rightarrow> nat \<Rightarrow> 'p run \<Rightarrow> 'p run option" where
  "forEach 0 H payload r index st = None"
| "forEach (Suc fuel) H payload r index st =
     (let entries = store (bus st) r
      in if index < length entries
         then (case entries ! index of
                 None \<Rightarrow> forEach fuel H payload r (index + 1) st
               | Some cb \<Rightarrow>
                   (case call (H cb) (bus st) of
                      (Returned, bus') \<Rightarrow>
                        forEach fuel H payload r (index + 1)
                          (st\<lparr> bus := bus', calls := calls st @ [(cb, payload)] \<rparr>)
                    | (Threw, bus') \<Rightarrow>
                        forEach fuel H payload r (index + 1)
                          (st\<lparr> bus := bus', calls := calls st @ [(cb, payload)],
                               console := console st @ [cb] \<rparr>)))
         else Some st)"

definition emit :: "nat \<Rightarrow> (callback \<Rightarrow> handler) \<Rightarrow> string \<Rightarrow> 'p \<Rightarrow> 'p run \<Rightarrow> 'p run option" where
  "emit fuel H eventType payload st =
     (case listeners (bus st) eventType of
        None \<Rightarrow> Some st
      | Some r \<Rightarrow> forEach fuel H payload r 0 st)"

definition start :: "ChartEventBus \<Rightarrow> 'p run" where
  "start b = \<lparr> bus = b, calls = [], console = [] \<rparr>"

definition quiet :: handler where
  "quiet = \<lparr> body = [], throws = False \<rparr>"

text \<open>
  The same callbacks with every \<open>throw\<close> removed.
\<close>

definition without_throws :: "(callback \<Rightarrow> handler) \<Rightarrow> callback \<Rightarrow> handler" where
  "without_throws H = (\<lambda>c. (H c)\<lparr> throws := False \<rparr>)"

text \<open>
  An action touches an event type when it subscribes or unsubscribes a callback of that
  type.
\<close>

fun touches :: "string \<Rightarrow> action \<Rightarrow> bool" where
  "touches k (On k' c) = (k' = k)"
| "touches k (Off k' c) = (k' = k)"
| "touches k Clear = False"

text \<open>
  The buses that the constructor and the methods build: every Set object in the Map was
  created by \<open>on\<close>, and no two event types share one.
\<close>

definition wf_bus :: "ChartEventBus \<Rightarrow> bool" where
  "wf_bus b =
     ((\<forall>k r. listeners b k = Some r \<longrightarrow> r < next_ref b) \<and>
      (\<forall>k k' r. listeners b k = Some r \<and> listeners b k' = Some r \<longrightarrow> k = k'))"

text \<open>
  The Set object \<open>r\<close> is reachable from the Map under the event type \<open>k\<close> at most.
\<close>

definition owned :: "string \<Rightarrow> nat \<Rightarrow> ChartEventBus \<Rightarrow> bool" where
  "owned k r b = (r < next_ref b \<and> (\<forall>k'. listeners b k' = Some r \<longrightarrow> k' = k))"

section \<open>The rules as the specification words them\<close>

text \<open>
  The valuation status as the specification words it: three independent signals, each
  counting towards undervalued or overvalued, with \<open>present\<close> deciding when a field
  counts as given.
\<close>

definition tallied_status :: "(real option \<Rightarrow> bool) \<Rightarrow> Valuation \<Rightarrow> valuation_label" where
  "tallied_status present v =
     (if \<not> present (price v) then Indeterminate
      else
       (let undervaluedCount = length (filter id
              [js_gt (dcf_margin_of_safety v) (Some 20),
               present (ddm_gordon v) \<and> js_lt (price v) (js_times (ddm_gordon v) (8 / 10)),
               present (ddm_two_stage v) \<and> js_lt (price v) (js_times (ddm_two_stage v) (8 / 10))]);
            overvaluedCount = length (filter id
              [js_lt (dcf_margin_of_safety v) (Some (- 20)),
               present (ddm_gordon v) \<and> js_gt (price v) (js_times (ddm_gordon v) (12 / 10)),
               present (ddm_two_stage v) \<and> js_gt (price v) (js_times (ddm_two_stage v) (12 / 10))])
        in if undervaluedCount \<ge> 2 then ClearlyUndervalued
           else if undervaluedCount \<ge> 1 then RelativelyUndervalued
           else if overvaluedCount \<ge> 2 then ClearlyOvervalued
           else if overvaluedCount \<ge> 1 then RelativelyOvervalued
           else FairlyValued))"

definition given :: "real option \<Rightarrow> bool" where
  "given v = (v \<noteq> None)"

text \<open>The cash-flow classes as the specification words them.\<close>

definition ratio_class :: "(real option \<Rightarrow> bool) \<Rightarrow> real option \<Rightarrow> real option \<Rightarrow> cash_flow_label" where
  "ratio_class present cfo netProfit =
     (case (cfo, netProfit) of
        (Some c, Some n) \<Rightarrow>
          if present cfo \<and> present netProfit
          then (let ratio = c / n
                in if ratio > 12 / 10 then Excellent
                   else if ratio > 8 / 10 then Good
                   else if ratio > 5 / 10 then Fair
                   else Poor)
          else InsufficientData
      | _ \<Rightarrow> InsufficientData)"

text \<open>The position of each rule in the fixed order in which the source evaluates them.\<close>

fun highlight_rule :: "highlight_text \<Rightarrow> nat" where
  "highlight_rule (RoeExcellent _) = 0"
| "highlight_rule (RoeStrong _) = 0"
| "highlight_rule (GrossMarginMoat _) = 1"
| "highlight_rule (GrossMarginCompetitive _) = 1"
| "highlight_rule (DebtVeryLow _) = 2"
| "highlight_rule (DebtHealthy _) = 2"
| "highlight_rule (RevenueHighGrowth _) = 3"
| "highlight_rule (RevenueSteadyGrowth _) = 3"
| "highlight_rule TrendSustained = 4"
| "highlight_rule TrendAccelerating = 4"
| "highlight_rule (DividendGenerous _) = 5"
| "highlight_rule CashFlowQualityExcellent = 6"
| "highlight_rule (PeLow _) = 7"

fun risk_rule :: "risk_text \<Rightarrow> nat" where
  "risk_rule (PeTooHigh _) = 0"
| "risk_rule (PeHigh _) = 0"
| "risk_rule (DcfBelowPrice _) = 1"
| "risk_rule (RoeLow _) = 2"
| "risk_rule (DebtTooHigh _) = 3"
| "risk_rule (DebtHigh _) = 3"
| "risk_rule (NetMarginThin _) = 4"
| "risk_rule (RevenueFalling _) = 5"
| "risk_rule (ProfitFalling _) = 5"
| "risk_rule CashFlowQualityPoor = 6"
| "risk_rule (TrendDown _) = 7"

definition ranks_before :: "Highlight \<Rightarrow> Highlight \<Rightarrow> bool" where
  "ranks_before a b =
     (priority a < priority b \<or>
      (priority a = priority b \<and>
       highlight_rule (highlight_text a) < highlight_rule (highlight_text b)))"

section \<open>Sample inputs\<close>

definition flat_bar :: "real \<Rightarrow> PriceBar" where
  "flat_bar c = \<lparr> date = [], open_price = c, high = c, low = c, close = c, volume = 0 \<rparr>"

definition zigzag :: "PriceBar list" where
  "zigzag = map flat_bar [1, 3, 1, 3, 1, 3, 1, 3, 1, 3, 1, 3, 1, 3, 1, 3, 1, 3, 1, 3]"

definition empty_valuation :: Valuation where
  "empty_valuation =
     \<lparr> price = None, pe_ttm = None, dividend_yield = None,
       dcf_margin_of_safety = None, ddm_gordon = None, ddm_two_stage = None \<rparr>"

definition empty_report :: ReportData where
  "empty_report =
     \<lparr> valuation = empty_valuation,
       fundamentals = \<lparr> fundamentals_net_profit_yi = None \<rparr>,
       growth_momentum = OtherMomentum,
       cash_flow = \<lparr> latest_cfo_yi = None \<rparr>,
       annual_trend = [] \<rparr>"

definition sample_report :: ReportData where
  "sample_report =
     \<lparr> valuation = empty_valuation\<lparr> pe_ttm := Some 35, dividend_yield := Some 4,
                                      dcf_margin_of_safety := Some (- 40) \<rparr>,
       fundamentals = \<lparr> fundamentals_net_profit_yi = Some 10 \<rparr>,
       growth_momentum = SustainedGrowth,
       cash_flow = \<lparr> latest_cfo_yi = Some 13 \<rparr>,
       annual_trend = [\<lparr> revenue_yi = Some 100, net_profit_yi = Some 10 \<rparr>,
                       \<lparr> revenue_yi = Some 130, net_profit_yi = Some 8 \<rparr>] \<rparr>"

definition sample_summary :: Summary where
  "sample_summary =
     \<lparr> roe = Some 25, gross_margin = Some 40, debt_ratio = Some 40, net_margin = Some 3 \<rparr>"

text \<open>
  Three callbacks 0, 1 and 2 subscribed to one event type, in this order.
\<close>

definition three_callbacks :: ChartEventBus where
  "three_callbacks =
     snd (on ''date:click'' 2 (snd (on ''date:click'' 1 (snd (on ''date:click'' 0 new_ChartEventBus)))))"

text \<open>
  Callback 0 subscribes, or unsubscribes, the callback \<open>g\<close>; the others do nothing.
\<close>

definition adds_callback :: "string \<Rightarrow> callback \<Rightarrow> callback \<Rightarrow> handler" where
  "adds_callback k g = (\<lambda>c. if c = 0 then \<lparr> body = [On k g], throws = False \<rparr> else quiet)"

definition removes_callback :: "string \<Rightarrow> callback \<Rightarrow> callback \<Rightarrow> handler" where
  "removes_callback k g = (\<lambda>c. if c = 0 then \<lparr> body = [Off k g], throws = False \<rparr> else quiet)"

text \<open>
  Callback 0 subscribes a callback to another event type, callback 1 throws, and the
  others call \<open>clear()\<close>.
\<close>

definition busy_callbacks :: "callback \<Rightarrow> handler" where
  "busy_callbacks =
     (\<lambda>c. if c = 0 then \<lparr> body = [On ''date:range'' 5], throws = False \<rparr>
          else if c = 1 then \<lparr> body = [], throws = True \<rparr>
          else \<lparr> body = [Clear], throws = False \<rparr>)"

section \<open>Properties of the indicator series\<close>

lemma length_calculateMA: "length (calculateMA cl days) = length cl"
  by (simp add: calculateMA_def)

lemma length_calculateSTD: "length (calculateSTD cl days ma) = length cl"
  by (simp add: calculateSTD_def)

lemma length_boll: "length (boll k ma std) = length ma"
  by (simp add: boll_def)

lemma foldl_plus_sum_list: "foldl (\<lambda>a b. a + b) s xs = s + sum_list (xs :: real list)"
  by (induction xs arbitrary: s) simp_all

lemma foldl_sq_sum_list:
  "foldl (\<lambda>a b. a + (b - avg)\<^sup>2) s xs = s + sum_list (map (\<lambda>b. (b - avg)\<^sup>2) (xs :: real list))"
  by (induction xs arbitrary: s) simp_all

lemma slice_window:
  assumes "n \<le> Suc i" and "i < length xs"
  shows "slice (int i - int n + 1) (int i + 1) xs = take n (drop (Suc i - n) xs)"
proof -
  have a: "nat (int i - int n + 1) = Suc i - n" using assms by simp
  have b: "int i + 1 - (int i - int n + 1) = int n" by simp
  show ?thesis using assms by (simp add: slice_def Let_def a min_def)
qed

lemma sum_list_window:
  fixes f :: "'a \<Rightarrow> real"
  assumes "n \<le> Suc i" and "i < length xs"
  shows "sum_list (map f (take n (drop (Suc i - n) xs))) = (\<Sum>j = Suc i - n..i. f (xs ! j))"
proof -
  let ?k = "Suc i - n"
  let ?ys = "map f (take n (drop ?k xs))"
  have len: "length ?ys = n" using assms by simp
  have nth: "?ys ! j = f (xs ! (j + ?k))" if "j < n" for j
    using that assms by (simp add: add.commute)
  have "sum_list ?ys = (\<Sum>j = 0..<length ?ys. ?ys ! j)"
    by (rule sum_list_sum_nth)
  also have "\<dots> = (\<Sum>j = 0..<n. f (xs ! (j + ?k)))"
    using len nth by (simp del: length_map length_take length_drop)
  also have "\<dots> = (\<Sum>j = 0 + ?k..<n + ?k. f (xs ! j))"
    by (rule sum.shift_bounds_nat_ivl [symmetric])
  also have "{0 + ?k..<n + ?k} = {?k..i}"
    using assms by auto
  finally show ?thesis .
qed

lemma nth_calculateMA:
  assumes "i < length cl" and "0 < n"
  shows "calculateMA cl (int n) ! i =
           (if i < n - 1 then None else Some ((\<Sum>j = Suc i - n..i. cl ! j) / real n))"
proof (cases "i < n - 1")
  case True
  then have "int i < int n - 1" using assms by linarith
  with True assms show ?thesis by (simp add: calculateMA_def)
next
  case False
  then have le: "n \<le> Suc i" by simp
  then have "\<not> int i < int n - 1" by linarith
  moreover have "sum_list (take n (drop (Suc i - n) cl)) = (\<Sum>j = Suc i - n..i. cl ! j)"
    using sum_list_window [OF le assms(1), of "\<lambda>x. x"] by simp
  ultimately show ?thesis
    using False assms le
    by (simp add: calculateMA_def Let_def slice_window foldl_plus_sum_list)
qed

lemma nth_calculateSTD:
  assumes "i < length cl" and "0 < n"
  shows "calculateSTD cl (int n) ma ! i =
           (if i < n - 1 then None
            else Some (sqrt ((\<Sum>j = Suc i - n..i. (cl ! j - toNumber (ma ! i))\<^sup>2) / real n)))"
proof (cases "i < n - 1")
  case True
  then have "int i < int n - 1" using assms by linarith
  with True assms show ?thesis by (simp add: calculateSTD_def)
next
  case False
  then have le: "n \<le> Suc i" by simp
  then have "\<not> int i < int n - 1" by linarith
  moreover have "sum_list (map (\<lambda>b. (b - toNumber (ma ! i))\<^sup>2) (take n (drop (Suc i - n) cl)))
      = (\<Sum>j = Suc i - n..i. (cl ! j - toNumber (ma ! i))\<^sup>2)"
    by (rule sum_list_window [OF le assms(1)])
  ultimately show ?thesis
    using False assms le
    by (simp add: calculateSTD_def Let_def slice_window foldl_sq_sum_list)
qed

lemma nth_boll:
  assumes "i < length ma"
  shows "boll k ma std ! i =
           (case (ma ! i, std ! i) of (Some v, Some s) \<Rightarrow> Some (v + k * s) | _ \<Rightarrow> None)"
  using assms by (simp add: boll_def split: option.splits)



text \<open>
  C3: for a non-empty bar sequence, below index 19 the 20-period average and both bands
  are \<^verbatim>\<open>null\<close>; from index 19 on the bands are the average plus and minus twice the
  population standard deviation of the closes \<open>i - 19, \<dots>, i\<close> around that average (the
  sum of the squared deviations divided by 20). With fewer than 20 bars all three arrays
  hold \<^verbatim>\<open>null\<close> only.
\<close>

theorem bollinger_band:
  assumes "data \<noteq> []"
  shows "\<exists>r. processedData (Some data) = Some r \<and>
           length (ma20 r) = length data \<and>
           length (bollUp r) = length data \<and>
           length (bollDn r) = length data \<and>
           (\<forall>i<length data.
              if i < 19
              then ma20 r ! i = None \<and> bollUp r ! i = None \<and> bollDn r ! i = None
              else (let m = (\<Sum>j = i - 19..i. close (data ! j)) / 20;
                        std = sqrt ((\<Sum>j = i - 19..i. (close (data ! j) - m)\<^sup>2) / 20)
                    in ma20 r ! i = Some m \<and>
                       bollUp r ! i = Some (m + 2 * std) \<and>
                       bollDn r ! i = Some (m - 2 * std))) \<and>
           (length data < 20 \<longrightarrow>
              ma20 r = replicate (length data) None \<and>
              bollUp r = replicate (length data) None \<and>
              bollDn r = replicate (length data) None)"
proof -
  define cl where "cl = map close data"
  define m20 where "m20 = calculateMA cl 20"
  define std20 where "std20 = calculateSTD cl 20 m20"
  define r where "r = the (processedData (Some data))"
  have r: "processedData (Some data) = Some r"
    using assms by (simp add: r_def processedData_def Let_def)
  have ma: "ma20 r = m20" and up: "bollUp r = boll 2 m20 std20"
    and dn: "bollDn r = boll (- 2) m20 std20"
    using assms by (simp_all add: r_def processedData_def Let_def cl_def m20_def std20_def)
  have len: "length m20 = length data" "length cl = length data"
    by (simp_all add: m20_def cl_def length_calculateMA)
  have early: "m20 ! i = None \<and> boll k m20 std20 ! i = None"
    if "i < length data" "i < 19" for i k
  proof -
    have "m20 ! i = None"
      using nth_calculateMA [of i cl 20] that len by (simp add: m20_def)
    then show ?thesis using that len by (simp add: nth_boll)
  qed
  have late: "m20 ! i = Some m \<and> boll k m20 std20 ! i = Some (m + k * s)"
    if i: "i < length data" "\<not> i < 19"
      and m: "m = (\<Sum>j = i - 19..i. close (data ! j)) / 20"
      and s: "s = sqrt ((\<Sum>j = i - 19..i. (close (data ! j) - m)\<^sup>2) / 20)"
    for i k m s
  proof -
    have w: "Suc i - 20 = i - 19" using i by simp
    have c: "(\<Sum>j = i - 19..i. f (cl ! j)) = (\<Sum>j = i - 19..i. f (close (data ! j)))"
      for f :: "real \<Rightarrow> real"
      using i by (intro sum.cong) (auto simp: cl_def)
    have a: "m20 ! i = Some m"
      using nth_calculateMA [of i cl 20] i len c [of "\<lambda>x. x"]
      by (simp add: m20_def w m)
    have b: "std20 ! i = Some s"
      using nth_calculateSTD [of i cl 20 m20] i len c [of "\<lambda>x. (x - m)\<^sup>2"]
      by (simp add: std20_def w a toNumber_def s)
    show ?thesis using a b i len by (simp add: nth_boll)
  qed
  have body: "if i < 19
      then ma20 r ! i = None \<and> bollUp r ! i = None \<and> bollDn r ! i = None
      else (let m = (\<Sum>j = i - 19..i. close (data ! j)) / 20;
                std = sqrt ((\<Sum>j = i - 19..i. (close (data ! j) - m)\<^sup>2) / 20)
            in ma20 r ! i = Some m \<and>
               bollUp r ! i = Some (m + 2 * std) \<and>
               bollDn r ! i = Some (m - 2 * std))"
    if i: "i < length data" for i
  proof (cases "i < 19")
    case True
    then show ?thesis using early [OF i True] by (simp add: ma up dn)
  next
    case False
    then show ?thesis
      using late [OF i False refl refl, of 2] late [OF i False refl refl, of "- 2"]
      by (simp add: ma up dn Let_def)
  qed
  have short: "ma20 r = replicate (length data) None \<and>
      bollUp r = replicate (length data) None \<and>
      bollDn r = replicate (length data) None" if "length data < 20"
  proof -
    have "\<forall>i<length data. i < 19" using that by auto
    then show ?thesis
      using early len
      by (auto simp: ma up dn list_eq_iff_nth_eq length_boll)
  qed
  have lens: "length (ma20 r) = length data" "length (bollUp r) = length data"
    "length (bollDn r) = length data"
    by (simp_all add: ma up dn len length_boll)
  from r lens body short show ?thesis by blast
qed

text \<open>
  Twenty bars closing at 1 and 3 in turn: the average is 2 and the standard deviation 1,
  so the bands at index 19 are 4 and 0; index 18 has no value.
\<close>

theorem bollinger_band_witness:
  "\<exists>r. processedData (Some zigzag) = Some r \<and>
       ma20 r ! 18 = None \<and> bollUp r ! 18 = None \<and> bollDn r ! 18 = None \<and>
       ma20 r ! 19 = Some 2 \<and> bollUp r ! 19 = Some 4 \<and> bollDn r ! 19 = Some 0"
proof -
  have ne: "zigzag \<noteq> []" by (simp add: zigzag_def)
  have len: "length zigzag = 20" by (simp add: zigzag_def)
  obtain r where r: "processedData (Some zigzag) = Some r"
    and nth: "\<forall>i<length zigzag.
              if i < 19
              then ma20 r ! i = None \<and> bollUp r ! i = None \<and> bollDn r ! i = None
              else (let m = (\<Sum>j = i - 19..i. close (zigzag ! j)) / 20;
                        std = sqrt ((\<Sum>j = i - 19..i. (close (zigzag ! j) - m)\<^sup>2) / 20)
                    in ma20 r ! i = Some m \<and>
                       bollUp r ! i = Some (m + 2 * std) \<and>
                       bollDn r ! i = Some (m - 2 * std))"
    using bollinger_band [OF ne] by blast
  have m: "(\<Sum>j = 0..19. close (zigzag ! j)) = 40"
    by (simp add: zigzag_def flat_bar_def eval_nat_numeral sum.atLeast0_atMost_Suc)
  have v: "(\<Sum>j = 0..19. (close (zigzag ! j) - 2)\<^sup>2) = 20"
    by (simp add: zigzag_def flat_bar_def eval_nat_numeral sum.atLeast0_atMost_Suc)
  have "ma20 r ! 18 = None \<and> bollUp r ! 18 = None \<and> bollDn r ! 18 = None"
    using nth [rule_format, of 18] len by simp
  moreover have "ma20 r ! 19 = Some 2 \<and> bollUp r ! 19 = Some 4 \<and> bollDn r ! 19 = Some 0"
    using nth [rule_format, of 19] len by (simp add: Let_def m v)
  ultimately show ?thesis using r by simp
qed

text \<open>
  C4 (as the code has it): for the empty bar sequence, and for a missing one,
  \<open>processedData\<close> returns \<^verbatim>\<open>null\<close>; these are the only inputs for which no
  indicator series is produced.
\<close>

theorem processedData_null_iff:
  "(processedData data = None) = (data = None \<or> data = Some [])"
  by (auto simp: processedData_def Let_def split: option.splits)

text \<open>
  C4 as stated fails: the empty bar sequence does not yield a series of empty arrays.
\<close>

theorem processedData_empty_counterexample:
  "\<not> (\<exists>r. processedData (Some []) = Some r \<and> length (ma5 r) = 0)"
  by (simp add: processedData_def)

section \<open>Properties of the insight rules\<close>

subsection \<open>Valuation status\<close>

text \<open>
  C1 (as the code has it): the status is the tally the specification describes, where a
  field counts as given when it is present and not zero. A price that is absent or zero
  gives the indeterminate status, and a dividend-discount value of zero is skipped like an
  absent one.
\<close>

theorem valuation_status_tally:
  "status (getValuationStatus data) = tallied_status truthy (valuation data)"
  by (simp add: getValuationStatus_def tallied_status_def Let_def)

text \<open>
  A price of 100 against a Gordon value of 120 is inside the band, and a margin of safety
  of 25 is the one undervalued signal.
\<close>

theorem valuation_status_tally_witness:
  "status (getValuationStatus
      (empty_report\<lparr> valuation := empty_valuation\<lparr> price := Some 100, ddm_gordon := Some 120,
                                                    dcf_margin_of_safety := Some 25 \<rparr> \<rparr>))
     = RelativelyUndervalued"
  using valuation_status_tally
    [of "empty_report\<lparr> valuation := empty_valuation\<lparr> price := Some 100, ddm_gordon := Some 120,
                                                    dcf_margin_of_safety := Some 25 \<rparr> \<rparr>"]
  by (simp add: tallied_status_def empty_report_def empty_valuation_def truthy_def
      js_gt_def js_lt_def js_times_def)

text \<open>
  C1 as stated fails, with a field counting as given whenever it is present: a price of
  zero is present and the code still answers indeterminate; a Gordon value of zero is
  present, the price 10 is above 1.2 times it, and the code counts no overvalued signal.
\<close>

theorem valuation_status_counterexample:
  "status (getValuationStatus
      (empty_report\<lparr> valuation := empty_valuation\<lparr> price := Some 0,
                                                    dcf_margin_of_safety := Some 25 \<rparr> \<rparr>))
     = Indeterminate \<and>
   tallied_status given (empty_valuation\<lparr> price := Some 0, dcf_margin_of_safety := Some 25 \<rparr>)
     = RelativelyUndervalued \<and>
   status (getValuationStatus
      (empty_report\<lparr> valuation := empty_valuation\<lparr> price := Some 10,
                                                    ddm_gordon := Some 0 \<rparr> \<rparr>))
     = FairlyValued \<and>
   tallied_status given (empty_valuation\<lparr> price := Some 10, ddm_gordon := Some 0 \<rparr>)
     = RelativelyOvervalued"
  by (simp add: getValuationStatus_def tallied_status_def Let_def given_def truthy_def
      js_gt_def js_lt_def js_times_def empty_report_def empty_valuation_def)

subsection \<open>Growth\<close>






subsection \<open>Cash-flow health\<close>

text \<open>
  C9 (as the code has it): the class is read off the ratio of operating cash flow to net
  profit, with the thresholds 1.2, 0.8 and 0.5; when either input is absent or zero the
  answer is the insufficient-data class, which is not the poor class. An input of zero is
  treated like an absent one.
\<close>

theorem cash_flow_health_classes:
  "cf_status (getCashFlowHealth data) =
     ratio_class truthy (latest_cfo_yi (cash_flow data))
       (fundamentals_net_profit_yi (fundamentals data)) \<and>
   InsufficientData \<noteq> Poor"
  by (auto simp: getCashFlowHealth_def ratio_class_def Let_def truthy_def ToNumber_def
      num_gt_def split: option.splits)

text \<open>
  An operating cash flow of 9 against a net profit of 10 is the ratio 0.9: good.
\<close>

theorem cash_flow_health_classes_witness:
  "cf_status (getCashFlowHealth
      (empty_report\<lparr> cash_flow := \<lparr> latest_cfo_yi = Some 9 \<rparr>,
                     fundamentals := \<lparr> fundamentals_net_profit_yi = Some 10 \<rparr> \<rparr>)) = Good"
  using cash_flow_health_classes
    [of "empty_report\<lparr> cash_flow := \<lparr> latest_cfo_yi = Some 9 \<rparr>,
                     fundamentals := \<lparr> fundamentals_net_profit_yi = Some 10 \<rparr> \<rparr>"]
  by (simp add: ratio_class_def truthy_def)

text \<open>
  C9 as stated fails: an operating cash flow of zero is present, the ratio to a net profit
  of 10 is 0 and the class would be poor; the code answers insufficient data, as it does
  for an absent cash flow.
\<close>

theorem cash_flow_health_counterexample:
  "cf_status (getCashFlowHealth
      (empty_report\<lparr> cash_flow := \<lparr> latest_cfo_yi = Some 0 \<rparr>,
                     fundamentals := \<lparr> fundamentals_net_profit_yi = Some 10 \<rparr> \<rparr>))
     = InsufficientData \<and>
   ratio_class given (Some 0) (Some 10) = Poor"
  by (simp add: getCashFlowHealth_def ratio_class_def given_def truthy_def empty_report_def)

subsection \<open>Highlights and risks\<close>

lemma slice_0: "slice 0 (int m) xs = take m xs"
  by (simp add: slice_def Let_def min_def)

lemma insort_ranks:
  assumes "sorted_wrt ranks_before ys"
    and "\<forall>y\<in>set ys. highlight_rule (highlight_text x) < highlight_rule (highlight_text y)"
  shows "sorted_wrt ranks_before (insort_key priority x ys)"
  using assms
proof (induction ys)
  case Nil
  then show ?case by simp
next
  case (Cons y ys)
  show ?case
  proof (cases "priority x \<le> priority y")
    case True
    have "ranks_before x z" if "z \<in> set (y # ys)" for z
    proof -
      have "priority y \<le> priority z"
        using that Cons.prems(1) by (auto simp: ranks_before_def)
      then show ?thesis
        using True that Cons.prems(2) by (auto simp: ranks_before_def)
    qed
    then show ?thesis using True Cons.prems(1) by simp
  next
    case False
    then have "ranks_before y x" by (simp add: ranks_before_def)
    then show ?thesis
      using False Cons by (auto simp: set_insort_key)
  qed
qed

lemma sort_ranks:
  assumes "sorted_wrt (\<lambda>a b. highlight_rule (highlight_text a) < highlight_rule (highlight_text b)) xs"
  shows "sorted_wrt ranks_before (sort_by_difference priority xs)"
  using assms
proof (induction xs)
  case Nil
  then show ?case by (simp add: sort_by_difference_def)
next
  case (Cons x xs)
  then show ?case
    using insort_ranks [of "sort_key priority xs" x]
    by (simp add: sort_by_difference_def)
qed

lemma ranks_priority: "sorted_wrt ranks_before xs \<Longrightarrow> sorted (map priority xs)"
  by (induction xs) (auto simp: ranks_before_def)

lemma sorted_wrt_short: "length xs \<le> 1 \<Longrightarrow> sorted_wrt P xs"
  by (cases xs) auto

lemma sorted_wrt_take_drop:
  assumes "sorted_wrt P xs" and "y \<in> set (take n xs)" and "x \<in> set (drop n xs)"
  shows "P y x"
proof -
  have "sorted_wrt P (take n xs @ drop n xs)" using assms(1) by simp
  then show ?thesis using assms(2,3) unfolding sorted_wrt_append by blast
qed

lemma highlight_blocks:
  "x \<in> set (highlight_roe s) \<Longrightarrow> highlight_rule (highlight_text x) = 0"
  "x \<in> set (highlight_gross_margin s) \<Longrightarrow> highlight_rule (highlight_text x) = 1"
  "x \<in> set (highlight_debt_ratio s) \<Longrightarrow> highlight_rule (highlight_text x) = 2"
  "x \<in> set (highlight_growth g) \<Longrightarrow> highlight_rule (highlight_text x) = 3"
  "x \<in> set (highlight_momentum m) \<Longrightarrow> highlight_rule (highlight_text x) = 4"
  "x \<in> set (highlight_dividend v) \<Longrightarrow> highlight_rule (highlight_text x) = 5"
  "x \<in> set (highlight_cash_flow c) \<Longrightarrow> highlight_rule (highlight_text x) = 6"
  "x \<in> set (highlight_pe v) \<Longrightarrow> highlight_rule (highlight_text x) = 7"
  by (auto simp: highlight_roe_def highlight_gross_margin_def highlight_debt_ratio_def
      highlight_growth_def highlight_momentum_def highlight_dividend_def
      highlight_cash_flow_def highlight_pe_def split: option.splits if_splits)

lemma highlight_blocks_short:
  "length (highlight_roe s) \<le> 1" "length (highlight_gross_margin s) \<le> 1"
  "length (highlight_debt_ratio s) \<le> 1" "length (highlight_growth g) \<le> 1"
  "length (highlight_momentum m) \<le> 1" "length (highlight_dividend v) \<le> 1"
  "length (highlight_cash_flow c) \<le> 1" "length (highlight_pe v) \<le> 1"
  by (auto simp: highlight_roe_def highlight_gross_margin_def highlight_debt_ratio_def
      highlight_growth_def highlight_momentum_def highlight_dividend_def
      highlight_cash_flow_def highlight_pe_def split: option.splits)

lemma highlight_items_in_order:
  "sorted_wrt (\<lambda>a b. highlight_rule (highlight_text a) < highlight_rule (highlight_text b))
     (highlight_items data summary)"
  unfolding highlight_items_def sorted_wrt_append
  by (auto intro!: sorted_wrt_short highlight_blocks_short dest!: highlight_blocks)

lemma risk_blocks:
  "x \<in> set (risk_pe v) \<Longrightarrow> risk_rule (risk_text x) = 0"
  "x \<in> set (risk_dcf v) \<Longrightarrow> risk_rule (risk_text x) = 1"
  "x \<in> set (risk_roe s) \<Longrightarrow> risk_rule (risk_text x) = 2"
  "x \<in> set (risk_debt_ratio s) \<Longrightarrow> risk_rule (risk_text x) = 3"
  "x \<in> set (risk_net_margin s) \<Longrightarrow> risk_rule (risk_text x) = 4"
  "x \<in> set (risk_growth g) \<Longrightarrow> risk_rule (risk_text x) = 5"
  "x \<in> set (risk_cash_flow c) \<Longrightarrow> risk_rule (risk_text x) = 6"
  "x \<in> set (risk_momentum m) \<Longrightarrow> risk_rule (risk_text x) = 7"
  by (auto simp: risk_pe_def risk_dcf_def risk_roe_def risk_debt_ratio_def risk_net_margin_def
      risk_growth_def risk_cash_flow_def risk_momentum_def split: option.splits if_splits)

lemma risk_blocks_short:
  "length (risk_pe v) \<le> 1" "length (risk_dcf v) \<le> 1" "length (risk_roe s) \<le> 1"
  "length (risk_debt_ratio s) \<le> 1" "length (risk_net_margin s) \<le> 1"
  "length (risk_growth g) \<le> 1" "length (risk_cash_flow c) \<le> 1"
  "length (risk_momentum m) \<le> 1"
  by (auto simp: risk_pe_def risk_dcf_def risk_roe_def risk_debt_ratio_def risk_net_margin_def
      risk_growth_def risk_cash_flow_def risk_momentum_def split: option.splits)

lemma risk_items_in_order:
  "sorted_wrt (\<lambda>a b. risk_rule (risk_text a) < risk_rule (risk_text b)) (risk_items data summary)"
  unfolding risk_items_def sorted_wrt_append
  by (auto intro!: sorted_wrt_short risk_blocks_short dest!: risk_blocks)

text \<open>
  C10: the highlights are at most five, ascending in priority, and among equal priorities
  in the order in which the rules are evaluated (\<open>ranks_before\<close>); they are the five
  first-ranked of the emitted items (all of them when fewer are emitted). The risks are
  the first five of the emitted items, in the order in which the rules are evaluated,
  whatever their level.
\<close>

theorem highlights_and_risks_order:
  "(let hs = generateHighlights data summary; items = highlight_items data summary
    in length hs \<le> 5 \<and> length hs = min 5 (length items) \<and>
       sorted (map priority hs) \<and>
       sorted_wrt ranks_before hs \<and>
       sorted_wrt (\<lambda>a b. highlight_rule (highlight_text a) < highlight_rule (highlight_text b)) items \<and>
       set hs \<subseteq> set items \<and>
       (\<forall>x\<in>set items - set hs. \<forall>y\<in>set hs. ranks_before y x)) \<and>
   (let rs = generateRisks data summary; items = risk_items data summary
    in length rs \<le> 5 \<and> rs = take 5 items \<and>
       sorted_wrt (\<lambda>a b. risk_rule (risk_text a) < risk_rule (risk_text b)) items \<and>
       sorted_wrt (\<lambda>a b. risk_rule (risk_text a) < risk_rule (risk_text b)) rs)"
proof -
  define items where "items = highlight_items data summary"
  define S where "S = sort_by_difference priority items"
  define hs where "hs = generateHighlights data summary"
  have hs: "hs = take 5 S"
    using slice_0 [of 5 S] by (simp add: hs_def generateHighlights_def S_def items_def)
  have setS: "set S = set items" and lenS: "length S = length items"
    by (simp_all add: S_def sort_by_difference_def)
  have S: "sorted_wrt ranks_before S"
    unfolding S_def items_def by (rule sort_ranks [OF highlight_items_in_order])
  have h: "sorted_wrt ranks_before hs"
    unfolding hs using S by (rule sorted_wrt_take)
  have sub: "set hs \<subseteq> set items"
    unfolding hs using setS set_take_subset by fastforce
  have rest: "ranks_before y x" if "x \<in> set items - set hs" "y \<in> set hs" for x y
  proof -
    have "x \<in> set (take 5 S) \<union> set (drop 5 S)"
      using that(1) setS by (simp flip: set_append)
    then have "x \<in> set (drop 5 S)" using that(1) hs by simp
    then show ?thesis using sorted_wrt_take_drop [OF S] that(2) hs by simp
  qed
  have H: "length hs \<le> 5 \<and> length hs = min 5 (length items) \<and>
       sorted (map priority hs) \<and> sorted_wrt ranks_before hs \<and>
       sorted_wrt (\<lambda>a b. highlight_rule (highlight_text a) < highlight_rule (highlight_text b)) items \<and>
       set hs \<subseteq> set items \<and>
       (\<forall>x\<in>set items - set hs. \<forall>y\<in>set hs. ranks_before y x)"
    using h sub rest ranks_priority [OF h] highlight_items_in_order [of data summary]
    by (simp add: hs lenS items_def min.commute)
  define rs where "rs = generateRisks data summary"
  have rs: "rs = take 5 (risk_items data summary)"
    using slice_0 [of 5 "risk_items data summary"] by (simp add: rs_def generateRisks_def)
  have R: "length rs \<le> 5 \<and> rs = take 5 (risk_items data summary) \<and>
       sorted_wrt (\<lambda>a b. risk_rule (risk_text a) < risk_rule (risk_text b)) (risk_items data summary) \<and>
       sorted_wrt (\<lambda>a b. risk_rule (risk_text a) < risk_rule (risk_text b)) rs"
    using risk_items_in_order [of data summary] by (simp add: rs sorted_wrt_take)
  show ?thesis
    using H R unfolding Let_def hs_def items_def rs_def by blast
qed

lemmas block_defs = highlight_roe_def highlight_gross_margin_def highlight_debt_ratio_def
      highlight_growth_def highlight_momentum_def highlight_dividend_def
      highlight_cash_flow_def highlight_pe_def
      risk_pe_def risk_dcf_def risk_roe_def risk_debt_ratio_def risk_net_margin_def
      risk_growth_def risk_cash_flow_def risk_momentum_def

lemma sample_growth:
  "calcGrowthRate sample_report = Some \<lparr> revenueGrowth = Fin 30, profitGrowth = Fin (- 20) \<rparr>"
  by (simp add: calcGrowthRate_def sample_report_def growthPct_def ToNumber_def truthy_def
      toFixed_num_def toFixed_def)

lemma sample_cash_flow: "cf_status (getCashFlowHealth sample_report) = Excellent"
  by (simp add: getCashFlowHealth_def sample_report_def ToNumber_def truthy_def num_gt_def)

text \<open>
  A report that emits seven highlights and four risks: the highlights kept are the four
  of priority 1 and the first of priority 2; the risks stay in rule order, a medium one
  before two high ones.
\<close>

theorem highlights_and_risks_order_witness:
  "map (\<lambda>h. (highlight_rule (highlight_text h), priority h))
      (generateHighlights sample_report sample_summary)
     = [(0, 1), (3, 1), (4, 1), (6, 1), (1, 2)] \<and>
   length (highlight_items sample_report sample_summary) = 7 \<and>
   sorted_wrt ranks_before (generateHighlights sample_report sample_summary) \<and>
   map (\<lambda>r. (risk_rule (risk_text r), level r)) (generateRisks sample_report sample_summary)
     = [(0, MediumRisk), (1, HighRisk), (4, HighRisk), (5, MediumRisk)]"
proof -
  have items: "highlight_items sample_report sample_summary =
     [\<lparr> highlight_text = RoeExcellent 25, priority = 1 \<rparr>,
      \<lparr> highlight_text = GrossMarginCompetitive 40, priority = 2 \<rparr>,
      \<lparr> highlight_text = DebtHealthy 40, priority = 2 \<rparr>,
      \<lparr> highlight_text = RevenueHighGrowth (Fin 30), priority = 1 \<rparr>,
      \<lparr> highlight_text = TrendSustained, priority = 1 \<rparr>,
      \<lparr> highlight_text = DividendGenerous 4, priority = 2 \<rparr>,
      \<lparr> highlight_text = CashFlowQualityExcellent, priority = 1 \<rparr>]"
    by (simp add: highlight_items_def block_defs sample_growth sample_cash_flow num_gt_def)
       (simp add: sample_report_def sample_summary_def empty_valuation_def toFixed_def)
  have hs: "generateHighlights sample_report sample_summary =
     [\<lparr> highlight_text = RoeExcellent 25, priority = 1 \<rparr>,
      \<lparr> highlight_text = RevenueHighGrowth (Fin 30), priority = 1 \<rparr>,
      \<lparr> highlight_text = TrendSustained, priority = 1 \<rparr>,
      \<lparr> highlight_text = CashFlowQualityExcellent, priority = 1 \<rparr>,
      \<lparr> highlight_text = GrossMarginCompetitive 40, priority = 2 \<rparr>]"
    by (simp add: generateHighlights_def items slice_def sort_by_difference_def)
  have rs: "generateRisks sample_report sample_summary =
     [\<lparr> risk_text = PeHigh 35, level = MediumRisk \<rparr>,
      \<lparr> risk_text = DcfBelowPrice (- 40), level = HighRisk \<rparr>,
      \<lparr> risk_text = NetMarginThin 3, level = HighRisk \<rparr>,
      \<lparr> risk_text = ProfitFalling (Fin 20), level = MediumRisk \<rparr>]"
    by (simp add: generateRisks_def risk_items_def block_defs sample_growth sample_cash_flow
          num_lt_def js_abs_def slice_def)
       (simp add: sample_report_def sample_summary_def empty_valuation_def toFixed_def)
  show ?thesis
    using highlights_and_risks_order [of sample_report sample_summary]
    by (simp add: hs rs items)
qed

section \<open>Properties of the event bus\<close>

subsection \<open>Set objects\<close>

lemma set_values_simps [simp]:
  "set_values [] = []"
  "set_values (None # es) = set_values es"
  "set_values (Some c # es) = c # set_values es"
  "set_values (xs @ ys) = set_values xs @ set_values ys"
  by (simp_all add: set_values_def List.map_filter_def)

lemma in_set_values: "c \<in> set (set_values es) \<longleftrightarrow> Some c \<in> set es"
  by (induction es) (auto split: option.splits simp: set_values_def List.map_filter_def)

lemma set_values_add:
  "set_values (set_add c es) =
     (if c \<in> set (set_values es) then set_values es else set_values es @ [c])"
  by (simp add: set_add_def in_set_values)

lemma set_values_delete: "set_values (set_delete c es) = removeAll c (set_values es)"
proof (induction es)
  case Nil
  then show ?case by (simp add: set_delete_def)
next
  case (Cons e es)
  then show ?case by (cases e) (auto simp: set_delete_def)
qed

lemma set_delete_twice: "set_delete c (set_delete c es) = set_delete c es"
  by (induction es) (auto simp: set_delete_def)

lemma set_add_twice: "set_add c (set_add c es) = set_add c es"
  by (auto simp: set_add_def)

lemma length_set_delete: "length (set_delete c es) = length es"
  by (simp add: set_delete_def)

lemma set_delete_append:
  "set_delete g (xs @ ys) = set_delete g xs @ set_delete g ys"
  by (simp add: set_delete_def)

lemma in_set_delete: "Some c \<in> set (set_delete g es) \<Longrightarrow> Some c \<in> set es"
  by (auto simp: set_delete_def split: if_splits)

lemma set_values_split:
  assumes "set_values es = pre @ h # post"
  shows "\<exists>e1 e2. es = e1 @ Some h # e2 \<and> set_values e1 = pre \<and> set_values e2 = post"
  using assms
proof (induction es arbitrary: pre)
  case Nil
  then show ?case by simp
next
  case (Cons e es)
  show ?case
  proof (cases e)
    case None
    then obtain e1 e2 where "es = e1 @ Some h # e2" "set_values e1 = pre" "set_values e2 = post"
      using Cons by auto
    then have "e # es = (None # e1) @ Some h # e2 \<and> set_values (None # e1) = pre \<and>
        set_values e2 = post"
      using None by simp
    then show ?thesis by blast
  next
    case (Some c)
    show ?thesis
    proof (cases pre)
      case Nil
      then have "e # es = [] @ Some h # es \<and> set_values [] = pre \<and> set_values es = post"
        using Cons.prems Some by simp
      then show ?thesis by blast
    next
      case (Cons p pre')
      then have "set_values es = pre' @ h # post" and c: "c = p"
        using Cons.prems Some by simp_all
      then obtain e1 e2 where "es = e1 @ Some h # e2" "set_values e1 = pre'"
        "set_values e2 = post"
        using Cons.IH by blast
      then have "e # es = (Some c # e1) @ Some h # e2 \<and> set_values (Some c # e1) = pre \<and>
          set_values e2 = post"
        using Some Cons c by simp
      then show ?thesis by blast
    qed
  qed
qed

subsection \<open>Subscribing and unsubscribing\<close>

lemma fst_on: "fst (on k c b) = Unsubscribe k c"
  by (simp add: on_def Let_def)

lemma registered_on:
  "registered (snd (on k c b)) k =
     (if c \<in> set (registered b k) then registered b k else registered b k @ [c])"
  by (auto simp: on_def registered_def Let_def set_values_add split: option.splits)

lemma on_twice: "snd (on k c (snd (on k c b))) = snd (on k c b)"
  by (auto simp: on_def Let_def set_add_twice split: option.splits)

lemma registered_off: "registered (off k c b) k = removeAll c (registered b k)"
  by (auto simp: off_def registered_def set_values_delete split: option.splits)

lemma off_twice: "off k c (off k c b) = off k c b"
  by (auto simp: off_def set_delete_twice split: option.splits)

lemma wf_owned: "wf_bus b \<Longrightarrow> listeners b k = Some r \<Longrightarrow> owned k r b"
  by (auto simp: wf_bus_def owned_def)

lemma wf_new: "wf_bus new_ChartEventBus"
  by (simp add: wf_bus_def new_ChartEventBus_def)

lemma wf_on: "wf_bus b \<Longrightarrow> wf_bus (snd (on k c b))"
  by (auto simp: wf_bus_def on_def Let_def split: option.splits if_splits)
     (metis less_Suc_eq less_irrefl_nat)+

lemma wf_off: "wf_bus b \<Longrightarrow> wf_bus (off k c b)"
  by (auto simp: wf_bus_def off_def split: option.splits)

lemma wf_clear: "wf_bus b \<Longrightarrow> wf_bus (clear b)"
  by (simp add: wf_bus_def clear_def)

lemma run_action_untouched:
  assumes "\<not> touches k a" and "owned k r b"
  shows "owned k r (run_action a b) \<and> store (run_action a b) r = store b r"
proof (cases a)
  case (On k' c)
  then have ne: "k' \<noteq> k" using assms(1) by simp
  show ?thesis
  proof (cases "listeners b k'")
    case None
    then show ?thesis
      using assms(2) On ne by (auto simp: owned_def on_def Let_def)
  next
    case (Some r')
    then have "r' \<noteq> r" using assms(2) ne by (auto simp: owned_def)
    then show ?thesis
      using assms(2) On Some by (auto simp: owned_def on_def Let_def)
  qed
next
  case (Off k' c)
  then have ne: "k' \<noteq> k" using assms(1) by simp
  show ?thesis
  proof (cases "listeners b k'")
    case None
    then show ?thesis using assms(2) Off by (simp add: off_def)
  next
    case (Some r')
    then have "r' \<noteq> r" using assms(2) ne by (auto simp: owned_def)
    then show ?thesis
      using assms(2) Off Some by (auto simp: owned_def off_def)
  qed
next
  case Clear
  then show ?thesis using assms(2) by (simp add: owned_def clear_def)
qed

lemma run_body_untouched:
  assumes "\<forall>a\<in>set as. \<not> touches k a" and "owned k r b"
  shows "owned k r (fold run_action as b) \<and> store (fold run_action as b) r = store b r"
  using assms
proof (induction as arbitrary: b)
  case Nil
  then show ?case by simp
next
  case (Cons a as)
  have 1: "owned k r (run_action a b)" "store (run_action a b) r = store b r"
    using run_action_untouched [of k a r b] Cons.prems by simp_all
  have "owned k r (fold run_action as (run_action a b)) \<and>
        store (fold run_action as (run_action a b)) r = store (run_action a b) r"
    using Cons.prems 1 by (intro Cons.IH) simp_all
  then show ?case using 1 by simp
qed

subsection \<open>The dispatch loop\<close>

lemma call_quiet: "body h = [] \<Longrightarrow> call h b = (if throws h then Threw else Returned, b)"
  by (simp add: call_def)

lemma call_without_throws: "snd (call (without_throws H c) b) = snd (call (H c) b)"
  by (simp add: call_def without_throws_def)

text \<open>
  The loop over a stretch of entries whose callbacks leave the bus alone.
\<close>

lemma forEach_quiet_stretch:
  assumes "store (bus st) r = es"
    and "i + n \<le> length es"
    and "\<forall>c. Some c \<in> set (take n (drop i es)) \<longrightarrow> body (H c) = []"
  shows "forEach (fuel + n) H payload r i st =
           forEach fuel H payload r (i + n)
             (st\<lparr> calls := calls st @ map (\<lambda>c. (c, payload)) (set_values (take n (drop i es))),
                  console := console st @ filter (\<lambda>c. throws (H c)) (set_values (take n (drop i es))) \<rparr>)"
  using assms
proof (induction n arbitrary: i st)
  case 0
  then show ?case by simp
next
  case (Suc n)
  have i: "i < length es" using Suc.prems(2) by simp
  then have d: "take (Suc n) (drop i es) = es ! i # take n (drop (Suc i) es)"
    by (simp add: take_Suc_conv_app_nth Cons_nth_drop_Suc [symmetric])
  show ?case
  proof (cases "es ! i")
    case None
    have "forEach (fuel + Suc n) H payload r i st = forEach (fuel + n) H payload r (Suc i) st"
      using i None Suc.prems(1) by simp
    also have "\<dots> = forEach fuel H payload r (Suc i + n)
             (st\<lparr> calls := calls st @ map (\<lambda>c. (c, payload)) (set_values (take n (drop (Suc i) es))),
                  console := console st @ filter (\<lambda>c. throws (H c)) (set_values (take n (drop (Suc i) es))) \<rparr>)"
      using Suc.prems d by (intro Suc.IH) auto
    finally show ?thesis using d None by simp
  next
    case (Some c)
    then have q: "body (H c) = []" using Suc.prems(3) d by simp
    let ?st = "st\<lparr> calls := calls st @ [(c, payload)],
                    console := console st @ (if throws (H c) then [c] else []) \<rparr>"
    have "forEach (fuel + Suc n) H payload r i st = forEach (fuel + n) H payload r (Suc i) ?st"
      using i Some Suc.prems(1) q by (simp add: call_quiet)
    also have "\<dots> = forEach fuel H payload r (Suc i + n)
             (?st\<lparr> calls := calls ?st @ map (\<lambda>c. (c, payload)) (set_values (take n (drop (Suc i) es))),
                   console := console ?st @ filter (\<lambda>c. throws (H c)) (set_values (take n (drop (Suc i) es))) \<rparr>)"
      using Suc.prems d by (intro Suc.IH) auto
    finally show ?thesis using d Some by simp
  qed
qed

lemma forEach_done:
  "length (store (bus st) r) \<le> i \<Longrightarrow> forEach (Suc fuel) H payload r i st = Some st"
  by simp

lemma forEach_quiet_rest:
  assumes "store (bus st) r = es"
    and "\<forall>c. Some c \<in> set (drop i es) \<longrightarrow> body (H c) = []"
    and "length es - i < fuel"
  shows "forEach fuel H payload r i st =
           Some (st\<lparr> calls := calls st @ map (\<lambda>c. (c, payload)) (set_values (drop i es)),
                     console := console st @ filter (\<lambda>c. throws (H c)) (set_values (drop i es)) \<rparr>)"
proof (cases "i \<le> length es")
  case True
  define n where "n = length es - i"
  obtain k where k: "fuel = Suc k + n"
    using assms(3) n_def by (metis add.commute less_imp_Suc_add add_Suc_right)
  have t: "take n (drop i es) = drop i es" by (simp add: n_def)
  have "forEach (Suc k + n) H payload r i st =
          forEach (Suc k) H payload r (i + n)
             (st\<lparr> calls := calls st @ map (\<lambda>c. (c, payload)) (set_values (take n (drop i es))),
                  console := console st @ filter (\<lambda>c. throws (H c)) (set_values (take n (drop i es))) \<rparr>)"
    using assms(1,2) True by (intro forEach_quiet_stretch) (auto simp: n_def t)
  also have "\<dots> = Some (st\<lparr> calls := calls st @ map (\<lambda>c. (c, payload)) (set_values (take n (drop i es))),
                  console := console st @ filter (\<lambda>c. throws (H c)) (set_values (take n (drop i es))) \<rparr>)"
    using assms(1) True by (intro forEach_done) (simp add: n_def)
  finally show ?thesis by (simp add: k t)
next
  case False
  then obtain k where "fuel = Suc k" using assms(3) by (cases fuel) auto
  then show ?thesis using False assms(1) by simp
qed

lemma forEach_call:
  assumes "i < length (store (bus st) r)" and "store (bus st) r ! i = Some c"
  shows "forEach (Suc fuel) H payload r i st =
           forEach fuel H payload r (Suc i)
             (st\<lparr> bus := snd (call (H c) (bus st)),
                  calls := calls st @ [(c, payload)],
                  console := console st @ (if throws (H c) then [c] else []) \<rparr>)"
  using assms by (simp add: call_def)

lemma forEach_throw_independent:
  assumes "bus st = bus st'" and "calls st = calls st'"
  shows "map_option (\<lambda>s. (bus s, calls s)) (forEach fuel H payload r i st) =
         map_option (\<lambda>s. (bus s, calls s)) (forEach fuel (without_throws H) payload r i st')"
  using assms
proof (induction fuel arbitrary: i st st')
  case 0
  then show ?case by simp
next
  case (Suc fuel)
  let ?es = "store (bus st) r"
  show ?case
  proof (cases "i < length ?es")
    case False
    then show ?thesis using Suc.prems by simp
  next
    case True
    show ?thesis
    proof (cases "?es ! i")
      case None
      then show ?thesis
        using True Suc.prems Suc.IH [of st st' "i + 1"] by simp
    next
      case (Some c)
      obtain o1 b1 where c1: "call (H c) (bus st) = (o1, b1)" by (cases "call (H c) (bus st)")
      obtain o2 b2 where c2: "call (without_throws H c) (bus st') = (o2, b2)"
        by (cases "call (without_throws H c) (bus st')")
      have b: "b2 = b1"
        using c1 c2 call_without_throws [of H c "bus st"] Suc.prems(1) by simp
      have o2: "o2 = Returned"
        using c2 by (simp add: call_def without_throws_def)
      let ?a = "st\<lparr> bus := b1, calls := calls st @ [(c, payload)] \<rparr>"
      let ?a' = "st\<lparr> bus := b1, calls := calls st @ [(c, payload)],
                      console := console st @ [c] \<rparr>"
      let ?b = "st'\<lparr> bus := b1, calls := calls st' @ [(c, payload)] \<rparr>"
      have l: "forEach (Suc fuel) H payload r i st =
                 forEach fuel H payload r (i + 1) (if o1 = Returned then ?a else ?a')"
        using True Some c1 by (cases o1) simp_all
      have r: "forEach (Suc fuel) (without_throws H) payload r i st' =
                 forEach fuel (without_throws H) payload r (i + 1) ?b"
        using True Some c2 b o2 Suc.prems(1) by simp
      show ?thesis
        unfolding l r using Suc.prems by (intro Suc.IH) auto
    qed
  qed
qed

lemma forEach_console:
  assumes "forEach fuel H payload r i st = Some st'"
  shows "\<exists>new. calls st' = calls st @ map (\<lambda>c. (c, payload)) new \<and>
               console st' = console st @ filter (\<lambda>c. throws (H c)) new"
  using assms
proof (induction fuel arbitrary: i st)
  case 0
  then show ?case by simp
next
  case (Suc fuel)
  let ?es = "store (bus st) r"
  show ?case
  proof (cases "i < length ?es")
    case False
    then have "st' = st" using Suc.prems by simp
    then have "calls st' = calls st @ map (\<lambda>c. (c, payload)) [] \<and>
               console st' = console st @ filter (\<lambda>c. throws (H c)) []" by simp
    then show ?thesis by blast
  next
    case True
    show ?thesis
    proof (cases "?es ! i")
      case None
      then show ?thesis using True Suc.prems Suc.IH [of "i + 1" st] by simp
    next
      case (Some c)
      let ?b = "snd (call (H c) (bus st))"
      let ?st = "st\<lparr> bus := ?b, calls := calls st @ [(c, payload)],
                      console := console st @ (if throws (H c) then [c] else []) \<rparr>"
      have "forEach fuel H payload r (i + 1) ?st = Some st'"
        using True Some Suc.prems by (auto simp: call_def split: if_splits)
      then obtain new where "calls st' = calls ?st @ map (\<lambda>c. (c, payload)) new"
        "console st' = console ?st @ filter (\<lambda>c. throws (H c)) new"
        using Suc.IH by blast
      then have "calls st' = calls st @ map (\<lambda>c. (c, payload)) (c # new) \<and>
               console st' = console st @ filter (\<lambda>c. throws (H c)) (c # new)"
        by simp
      then show ?thesis by blast
    qed
  qed
qed

declare forEach.simps [simp del]

lemma emit_quiet:
  assumes "\<forall>c\<in>set (registered (bus st) k). body (H c) = []"
  shows "\<exists>n. \<forall>fuel>n. emit fuel H k payload st =
           Some (st\<lparr> calls := calls st @ map (\<lambda>c. (c, payload)) (registered (bus st) k),
                     console := console st @ filter (\<lambda>c. throws (H c)) (registered (bus st) k) \<rparr>)"
proof (cases "listeners (bus st) k")
  case None
  then show ?thesis by (simp add: emit_def registered_def)
next
  case (Some r)
  define es where "es = store (bus st) r"
  have q: "\<forall>c. Some c \<in> set (drop 0 es) \<longrightarrow> body (H c) = []"
    using assms Some by (simp add: registered_def es_def in_set_values)
  have "emit fuel H k payload st =
           Some (st\<lparr> calls := calls st @ map (\<lambda>c. (c, payload)) (registered (bus st) k),
                     console := console st @ filter (\<lambda>c. throws (H c)) (registered (bus st) k) \<rparr>)"
    if "length es < fuel" for fuel
    using forEach_quiet_rest [OF es_def [symmetric] q, of fuel payload] that Some
    by (simp add: emit_def registered_def es_def)
  then show ?thesis by blast
qed

text \<open>
  One callback \<open>h\<close> changes the set while the others leave the bus alone: the loop calls
  the callbacks in front of \<open>h\<close>, then \<open>h\<close>, and then whatever the set holds behind
  the position of \<open>h\<close> once \<open>h\<close> has run.
\<close>

lemma forEach_one_change:
  fixes payload :: 'p
  assumes es: "store b r = e1 @ Some h # e2"
    and quiet1: "\<forall>c. Some c \<in> set e1 \<longrightarrow> body (H c) = []"
    and after: "store (snd (call (H h) b)) r = e1' @ x # rest" "length e1' = length e1"
    and quiet2: "\<forall>c. Some c \<in> set rest \<longrightarrow> body (H c) = []"
    and fuel: "length e1 + length rest + 2 < fuel"
  shows "\<exists>st'. forEach fuel H payload r 0 (start b) = Some st' \<and>
           map fst (calls st') = set_values e1 @ h # set_values rest \<and>
           bus st' = snd (call (H h) b)"
proof -
  let ?n = "length e1"
  define f2 where "f2 = fuel - Suc ?n"
  have f: "fuel = Suc f2 + ?n" and f2: "length rest + 1 < f2"
    using fuel by (simp_all add: f2_def)
  define st1 :: "'p run" where
    "st1 = \<lparr> bus = b, calls = map (\<lambda>c. (c, payload)) (set_values e1),
             console = filter (\<lambda>c. throws (H c)) (set_values e1) \<rparr>"
  define st2 where
    "st2 = st1\<lparr> bus := snd (call (H h) (bus st1)),
                  calls := calls st1 @ [(h, payload)],
                  console := console st1 @ (if throws (H h) then [h] else []) \<rparr>"
  define st3 where
    "st3 = st2\<lparr> calls := calls st2 @ map (\<lambda>c. (c, payload)) (set_values rest),
                   console := console st2 @ filter (\<lambda>c. throws (H c)) (set_values rest) \<rparr>"
  have b0: "store (bus (start b :: 'p run)) r = e1 @ Some h # e2" by (simp add: start_def es)
  have b1: "bus st1 = b" by (simp add: st1_def)
  have s1: "forEach (Suc f2 + ?n) H payload r 0 (start b) = forEach (Suc f2) H payload r ?n st1"
    using forEach_quiet_stretch [OF b0, of 0 ?n H "Suc f2" payload] quiet1
    by (simp add: st1_def start_def)
  have s2: "forEach (Suc f2) H payload r ?n st1 = forEach f2 H payload r (Suc ?n) st2"
    unfolding st2_def by (rule forEach_call) (simp_all add: b1 es)
  have b2: "store (bus st2) r = e1' @ x # rest" by (simp add: st2_def b1 after)
  have d: "drop (Suc ?n) (e1' @ x # rest) = rest" using after(2) by simp
  have s3: "forEach f2 H payload r (Suc ?n) st2 = Some st3"
    using forEach_quiet_rest [OF b2, of "Suc ?n" H f2 payload] quiet2 f2 after(2) d
    by (simp add: st3_def)
  have "map fst (calls st3) = set_values e1 @ h # set_values rest"
    by (simp add: st3_def st2_def st1_def comp_def)
  moreover have "bus st3 = snd (call (H h) b)"
    by (simp add: st3_def st2_def b1)
  ultimately show ?thesis
    unfolding f using s1 s2 s3 by simp
qed

text \<open>
  The loop over a stretch of entries whose callbacks leave the set of the event type alone.
\<close>

lemma forEach_untouched_stretch:
  assumes "store (bus st) r = es" and "owned k r (bus st)"
    and "i + n \<le> length es"
    and "\<forall>c. Some c \<in> set (take n (drop i es)) \<longrightarrow> (\<forall>a\<in>set (body (H c)). \<not> touches k a)"
  shows "\<exists>st'. forEach (fuel + n) H payload r i st = forEach fuel H payload r (i + n) st' \<and>
           calls st' = calls st @ map (\<lambda>c. (c, payload)) (set_values (take n (drop i es))) \<and>
           console st' = console st @ filter (\<lambda>c. throws (H c)) (set_values (take n (drop i es))) \<and>
           store (bus st') r = es \<and> owned k r (bus st')"
  using assms
proof (induction n arbitrary: i st)
  case 0
  then have "forEach (fuel + 0) H payload r i st = forEach fuel H payload r (i + 0) st \<and>
           calls st = calls st @ map (\<lambda>c. (c, payload)) (set_values (take 0 (drop i es))) \<and>
           console st = console st @ filter (\<lambda>c. throws (H c)) (set_values (take 0 (drop i es))) \<and>
           store (bus st) r = es \<and> owned k r (bus st)"
    by simp
  then show ?case by blast
next
  case (Suc n)
  have i: "i < length es" using Suc.prems(3) by simp
  then have d: "take (Suc n) (drop i es) = es ! i # take n (drop (Suc i) es)"
    by (simp add: take_Suc_conv_app_nth Cons_nth_drop_Suc [symmetric])
  have rest: "\<forall>c. Some c \<in> set (take n (drop (Suc i) es)) \<longrightarrow>
      (\<forall>a\<in>set (body (H c)). \<not> touches k a)"
    using Suc.prems(4) d by simp
  show ?case
  proof (cases "es ! i")
    case None
    have step: "forEach (fuel + Suc n) H payload r i st = forEach (fuel + n) H payload r (Suc i) st"
      using i None Suc.prems(1) by (simp add: forEach.simps)
    obtain st' where "forEach (fuel + n) H payload r (Suc i) st =
          forEach fuel H payload r (Suc i + n) st'"
      "calls st' = calls st @ map (\<lambda>c. (c, payload)) (set_values (take n (drop (Suc i) es)))"
      "console st' = console st @ filter (\<lambda>c. throws (H c)) (set_values (take n (drop (Suc i) es)))"
      "store (bus st') r = es" "owned k r (bus st')"
      using Suc.IH [of st "Suc i"] Suc.prems(1,2,3) rest by auto
    then show ?thesis using step d None by auto
  next
    case (Some c)
    then have q: "\<forall>a\<in>set (body (H c)). \<not> touches k a" using Suc.prems(4) d by simp
    define st1 where
      "st1 = st\<lparr> bus := snd (call (H c) (bus st)),
                 calls := calls st @ [(c, payload)],
                 console := console st @ (if throws (H c) then [c] else []) \<rparr>"
    have step: "forEach (fuel + Suc n) H payload r i st = forEach (fuel + n) H payload r (Suc i) st1"
      unfolding st1_def using forEach_call [of i st r c "fuel + n" H payload] i Some Suc.prems(1)
      by simp
    have keep: "owned k r (bus st1)" "store (bus st1) r = es"
      using run_body_untouched [OF q Suc.prems(2)] Suc.prems(1)
      by (simp_all add: st1_def call_def)
    obtain st' where "forEach (fuel + n) H payload r (Suc i) st1 =
          forEach fuel H payload r (Suc i + n) st'"
      "calls st' = calls st1 @ map (\<lambda>c. (c, payload)) (set_values (take n (drop (Suc i) es)))"
      "console st' = console st1 @ filter (\<lambda>c. throws (H c)) (set_values (take n (drop (Suc i) es)))"
      "store (bus st') r = es" "owned k r (bus st')"
      using Suc.IH [of st1 "Suc i"] keep Suc.prems(3) rest by auto
    then show ?thesis using step d Some by (auto simp: st1_def)
  qed
qed

lemma emit_untouched:
  fixes payload :: 'p
  assumes "wf_bus (bus st)"
    and "\<forall>c\<in>set (registered (bus st) k). \<forall>a\<in>set (body (H c)). \<not> touches k a"
  shows "\<exists>n. \<forall>fuel>n. \<exists>st'. emit fuel H k payload st = Some st' \<and>
           calls st' = calls st @ map (\<lambda>c. (c, payload)) (registered (bus st) k) \<and>
           console st' = console st @ filter (\<lambda>c. throws (H c)) (registered (bus st) k)"
proof (cases "listeners (bus st) k")
  case None
  then show ?thesis by (simp add: emit_def registered_def)
next
  case (Some r)
  define es where "es = store (bus st) r"
  have reg: "registered (bus st) k = set_values es"
    using Some by (simp add: registered_def es_def)
  have own: "owned k r (bus st)" using assms(1) Some by (rule wf_owned)
  have q: "\<forall>c. Some c \<in> set (take (length es) (drop 0 es)) \<longrightarrow>
      (\<forall>a\<in>set (body (H c)). \<not> touches k a)"
    using assms(2) reg by (simp add: in_set_values)
  have "\<exists>st'. emit fuel H k payload st = Some st' \<and>
           calls st' = calls st @ map (\<lambda>c. (c, payload)) (registered (bus st) k) \<and>
           console st' = console st @ filter (\<lambda>c. throws (H c)) (registered (bus st) k)"
    if "length es < fuel" for fuel
  proof -
    define f where "f = fuel - Suc (length es)"
    have fuel: "fuel = Suc f + length es" using that by (simp add: f_def)
    obtain st' where 1: "forEach (Suc f + length es) H payload r 0 st =
          forEach (Suc f) H payload r (0 + length es) st'"
      and 2: "calls st' = calls st @ map (\<lambda>c. (c, payload)) (set_values (take (length es) (drop 0 es)))"
        "console st' = console st @ filter (\<lambda>c. throws (H c)) (set_values (take (length es) (drop 0 es)))"
      and 3: "store (bus st') r = es"
      using forEach_untouched_stretch [OF es_def [symmetric] own _ q, of "Suc f" payload]
      by auto
    have "forEach (Suc f) H payload r (length es) st' = Some st'"
      using 3 by (intro forEach_done) simp
    then show ?thesis using 1 2 Some by (simp add: emit_def fuel reg)
  qed
  then show ?thesis by blast
qed

lemma three_callbacks_registered: "registered three_callbacks ''date:click'' = [0, 1, 2]"
  by code_simp

lemma wf_three_callbacks: "wf_bus three_callbacks"
  unfolding three_callbacks_def by (intro wf_on wf_new)

subsection \<open>One callback, subscribed twice\<close>

text \<open>
  C5 (as the code has it): the callbacks of an event type are a \<^verbatim>\<open>Set\<close>, so
  subscribing the same callback a second time changes nothing: there is one registration,
  and both returned functions unsubscribe it. After one of them is called the callback is
  not registered any more and a later publish does not call it (here with callbacks that
  leave the bus alone); the other registrations of the event type stay as they are, in
  their order. Calling either function again changes nothing and is not an error.
\<close>

theorem same_callback_registered_once:
  fixes payload :: 'p
  shows "(let (t1, b1) = on k c b; (t2, b2) = on k c b1; b3 = call_unsubscribe t1 b2
          in t2 = t1 \<and> b2 = b1 \<and>
             registered b2 k =
               (if c \<in> set (registered b k) then registered b k else registered b k @ [c]) \<and>
             registered b3 k = removeAll c (registered b k) \<and>
             call_unsubscribe t1 b3 = b3 \<and> call_unsubscribe t2 b3 = b3 \<and>
             ((\<forall>h\<in>set (registered b k). body (H h) = []) \<longrightarrow>
                (\<exists>n. \<forall>fuel>n. \<exists>st'. emit fuel H k payload (start b3) = Some st' \<and>
                    map fst (calls st') = removeAll c (registered b k))))"
proof -
  define b1 where "b1 = snd (on k c b)"
  define b3 where "b3 = off k c b1"
  have on1: "on k c b = (Unsubscribe k c, b1)"
    using fst_on [of k c b] by (simp add: b1_def prod_eq_iff)
  have on2: "on k c b1 = (Unsubscribe k c, b1)"
    using fst_on [of k c b1] on_twice [of k c b] by (simp add: b1_def prod_eq_iff)
  have r1: "registered b1 k =
      (if c \<in> set (registered b k) then registered b k else registered b k @ [c])"
    unfolding b1_def by (rule registered_on)
  have r3: "registered b3 k = removeAll c (registered b k)"
    by (simp add: b3_def registered_off r1)
  have again: "off k c b3 = b3"
    unfolding b3_def by (rule off_twice)
  have pub: "\<exists>n. \<forall>fuel>n. \<exists>st'. emit fuel H k payload (start b3) = Some st' \<and>
                    map fst (calls st') = removeAll c (registered b k)"
    if q: "\<forall>h\<in>set (registered b k). body (H h) = []"
  proof -
    have "\<forall>h\<in>set (registered (bus (start b3 :: 'p run)) k). body (H h) = []"
      using q by (simp add: start_def r3)
    from emit_quiet [OF this, of payload]
    obtain n where n: "\<forall>fuel>n. emit fuel H k payload (start b3) =
           Some ((start b3)\<lparr> calls := calls (start b3 :: 'p run) @
                       map (\<lambda>c. (c, payload)) (registered (bus (start b3 :: 'p run)) k),
                     console := console (start b3 :: 'p run) @
                       filter (\<lambda>c. throws (H c)) (registered (bus (start b3 :: 'p run)) k) \<rparr>)"
      by blast
    have "\<exists>st'. emit fuel H k payload (start b3) = Some st' \<and>
                    map fst (calls st') = removeAll c (registered b k)" if "n < fuel" for fuel
      using n that by (simp add: start_def r3 comp_def)
    then show ?thesis by blast
  qed
  show ?thesis
    using r1 r3 again pub by (simp add: on1 on2 b3_def)
qed

text \<open>
  With the callbacks 0, 1, 2 subscribed: subscribing 7 twice gives 0, 1, 2, 7; after one
  unsubscribe a publish calls 0, 1, 2.
\<close>

theorem same_callback_registered_once_witness:
  "(let (t1, b1) = on ''date:click'' 7 three_callbacks;
        (t2, b2) = on ''date:click'' 7 b1;
        b3 = call_unsubscribe t1 b2
    in registered b2 ''date:click'' = [0, 1, 2, 7] \<and>
       registered b3 ''date:click'' = [0, 1, 2] \<and>
       (\<exists>n. \<forall>fuel>n. \<exists>st'. emit fuel (\<lambda>c. quiet) ''date:click'' () (start b3) = Some st' \<and>
                    map fst (calls st') = [0, 1, 2]))"
  using same_callback_registered_once [of "''date:click''" 7 three_callbacks "\<lambda>c. quiet" "()"]
  by (simp add: three_callbacks_registered quiet_def split_beta Let_def on_twice fst_on)

text \<open>
  C5 as stated fails: callback 7 is subscribed twice to an empty bus and unsubscribed
  once; nothing is registered then, and a publish calls nothing.
\<close>

theorem same_callback_counterexample:
  "(let (t1, b1) = on ''date:click'' 7 new_ChartEventBus;
        (t2, b2) = on ''date:click'' 7 b1;
        b3 = call_unsubscribe t1 b2
    in registered b2 ''date:click'' = [7] \<and>
       registered b3 ''date:click'' = [] \<and>
       map_option calls (emit 3 (\<lambda>c. quiet) ''date:click'' () (start b3)) = Some [])"
  by code_simp

subsection \<open>Changes made while a publish runs\<close>

text \<open>
  C6 (as the code has it): \<open>emit\<close> iterates the live \<^verbatim>\<open>Set\<close>, so a change a callback
  makes takes effect in the publish that is running. With the other callbacks leaving the
  bus alone: a callback \<open>g\<close> that a running callback \<open>h\<close> subscribes to the same event
  type is called by the same publish, after the callbacks that were registered; a
  callback that \<open>h\<close> unsubscribes is not called by this publish if its turn was still
  to come.
\<close>

theorem emit_sees_registry_changes:
  fixes payload :: 'p
  assumes "registered b k = pre @ h # post"
    and "\<forall>c\<in>set (pre @ post). body (H c) = []"
  shows "(body (H h) = [On k g] \<and> g \<notin> set (pre @ h # post) \<and> body (H g) = [] \<longrightarrow>
           (\<exists>n. \<forall>fuel>n. \<exists>st'. emit fuel H k payload (start b) = Some st' \<and>
               map fst (calls st') = pre @ h # post @ [g])) \<and>
         (body (H h) = [Off k g] \<longrightarrow>
           (\<exists>n. \<forall>fuel>n. \<exists>st'. emit fuel H k payload (start b) = Some st' \<and>
               map fst (calls st') = pre @ h # removeAll g post))"
proof -
  obtain r where r: "listeners b k = Some r"
    using assms(1) by (cases "listeners b k") (auto simp: registered_def)
  define es where "es = store b r"
  have "set_values es = pre @ h # post"
    using assms(1) r by (simp add: registered_def es_def)
  then obtain e1 e2 where es: "es = e1 @ Some h # e2" and e1: "set_values e1 = pre"
    and e2: "set_values e2 = post"
    using set_values_split by blast
  have q1: "\<forall>c. Some c \<in> set e1 \<longrightarrow> body (H c) = []"
    using assms(2) e1 by (auto simp flip: in_set_values)
  have q2: "\<forall>c. Some c \<in> set e2 \<longrightarrow> body (H c) = []"
    using assms(2) e2 by (auto simp flip: in_set_values)
  have em: "emit fuel H k payload (start b) = forEach fuel H payload r 0 (start b)" for fuel
    using r by (simp add: emit_def start_def)
  have store: "store b r = e1 @ Some h # e2" using es es_def by simp
  have add: "\<exists>n. \<forall>fuel>n. \<exists>st'. emit fuel H k payload (start b) = Some st' \<and>
               map fst (calls st') = pre @ h # post @ [g]"
    if h: "body (H h) = [On k g]" and g: "g \<notin> set (pre @ h # post)" "body (H g) = []"
  proof -
    have "Some g \<notin> set es"
      using g(1) e1 e2 es by (auto simp flip: in_set_values)
    then have after: "store (snd (call (H h) b)) r = e1 @ Some h # (e2 @ [Some g])"
      using h r es es_def by (simp add: call_def on_def set_add_def)
    have q: "\<forall>c. Some c \<in> set (e2 @ [Some g]) \<longrightarrow> body (H c) = []"
      using q2 g(2) by auto
    have "\<exists>st'. forEach fuel H payload r 0 (start b) = Some st' \<and>
           map fst (calls st') = set_values e1 @ h # set_values (e2 @ [Some g]) \<and>
           bus st' = snd (call (H h) b)"
      if "length e1 + length (e2 @ [Some g]) + 2 < fuel" for fuel
      using forEach_one_change [OF store q1 after refl q that] .
    then have "\<exists>st'. emit fuel H k payload (start b) = Some st' \<and>
           map fst (calls st') = pre @ h # post @ [g]"
      if "length e1 + length (e2 @ [Some g]) + 2 < fuel" for fuel
      using that em e1 e2 by fastforce
    then show ?thesis by blast
  qed
  have del: "\<exists>n. \<forall>fuel>n. \<exists>st'. emit fuel H k payload (start b) = Some st' \<and>
               map fst (calls st') = pre @ h # removeAll g post"
    if h: "body (H h) = [Off k g]"
  proof -
    have after: "store (snd (call (H h) b)) r =
        set_delete g e1 @ (if Some h = Some g then None else Some h) # set_delete g e2"
      using h r es es_def by (simp add: call_def off_def set_delete_def)
    have q: "\<forall>c. Some c \<in> set (set_delete g e2) \<longrightarrow> body (H c) = []"
      using q2 in_set_delete by blast
    have "\<exists>st'. forEach fuel H payload r 0 (start b) = Some st' \<and>
           map fst (calls st') = set_values e1 @ h # set_values (set_delete g e2) \<and>
           bus st' = snd (call (H h) b)"
      if "length e1 + length (set_delete g e2) + 2 < fuel" for fuel
      using forEach_one_change [OF store q1 after length_set_delete q that] .
    then have "\<exists>st'. emit fuel H k payload (start b) = Some st' \<and>
           map fst (calls st') = pre @ h # removeAll g post"
      if "length e1 + length (set_delete g e2) + 2 < fuel" for fuel
      using that em e1 e2 by (fastforce simp: set_values_delete)
    then show ?thesis by blast
  qed
  show ?thesis using add del by blast
qed

text \<open>
  With the callbacks 0, 1, 2 subscribed: when 0 subscribes 3, the publish calls 0, 1, 2, 3;
  when 0 unsubscribes 2, the publish calls 0 and 1.
\<close>

theorem emit_sees_registry_changes_witness:
  "(\<exists>n. \<forall>fuel>n. \<exists>st'.
      emit fuel (adds_callback ''date:click'' 3) ''date:click'' () (start three_callbacks) = Some st' \<and>
      map fst (calls st') = [0, 1, 2, 3]) \<and>
   (\<exists>n. \<forall>fuel>n. \<exists>st'.
      emit fuel (removes_callback ''date:click'' 2) ''date:click'' () (start three_callbacks) = Some st' \<and>
      map fst (calls st') = [0, 1])"
proof -
  have r: "registered three_callbacks ''date:click'' = [] @ 0 # [1, 2]"
    by (simp add: three_callbacks_registered)
  have a: "\<forall>c\<in>set ([] @ [1, 2]). body (adds_callback ''date:click'' 3 c) = []"
    by (simp add: adds_callback_def quiet_def)
  have d: "\<forall>c\<in>set ([] @ [1, 2]). body (removes_callback ''date:click'' 2 c) = []"
    by (simp add: removes_callback_def quiet_def)
  show ?thesis
    using emit_sees_registry_changes [OF r a, of 3 "()"]
      emit_sees_registry_changes [OF r d, of 2 "()"]
    by (simp add: adds_callback_def removes_callback_def quiet_def)
qed

text \<open>
  C6 as stated fails: callback 0 subscribes callback 1 while it runs, and the same publish
  calls 1.
\<close>

theorem emit_sees_added_callback_counterexample:
  "map_option (\<lambda>s. map fst (calls s))
     (emit 4 (adds_callback ''date:click'' 1) ''date:click'' ()
        (start (snd (on ''date:click'' 0 new_ChartEventBus))))
     = Some [0, 1]"
  by code_simp

subsection \<open>Dispatch and errors\<close>

text \<open>
  C7 (as the code has it): on a bus built by the constructor and the methods, when no
  callback registered for the event type subscribes or unsubscribes callbacks of that
  type while the publish runs, \<open>emit\<close> returns and has called every registered
  callback once, in registration order, with the payload, and has logged the callbacks
  that threw. With no registered callback \<open>emit\<close> returns and changes nothing. For
  callbacks of any kind: whether a callback throws has no effect on the callbacks called
  and on the bus, \<open>emit\<close> itself never throws, and the log holds the called callbacks
  that threw, in order.
\<close>

theorem emit_dispatch:
  fixes payload :: 'p
  shows
  "(wf_bus (bus st) \<and>
    (\<forall>c\<in>set (registered (bus st) k). \<forall>a\<in>set (body (H c)). \<not> touches k a) \<longrightarrow>
      (\<exists>n. \<forall>fuel>n. \<exists>st'. emit fuel H k payload st = Some st' \<and>
          calls st' = calls st @ map (\<lambda>c. (c, payload)) (registered (bus st) k) \<and>
          console st' = console st @ filter (\<lambda>c. throws (H c)) (registered (bus st) k))) \<and>
   (registered (bus st) k = [] \<longrightarrow> (\<exists>n. \<forall>fuel>n. emit fuel H k payload st = Some st)) \<and>
   map_option (\<lambda>s. (bus s, calls s)) (emit fuel H k payload st) =
     map_option (\<lambda>s. (bus s, calls s)) (emit fuel (without_throws H) k payload st) \<and>
   (\<forall>st'. emit fuel H k payload st = Some st' \<longrightarrow>
      (\<exists>new. calls st' = calls st @ map (\<lambda>c. (c, payload)) new \<and>
             console st' = console st @ filter (\<lambda>c. throws (H c)) new))"
proof (intro conjI impI allI)
  assume "wf_bus (bus st) \<and>
    (\<forall>c\<in>set (registered (bus st) k). \<forall>a\<in>set (body (H c)). \<not> touches k a)"
  then show "\<exists>n. \<forall>fuel>n. \<exists>st'. emit fuel H k payload st = Some st' \<and>
          calls st' = calls st @ map (\<lambda>c. (c, payload)) (registered (bus st) k) \<and>
          console st' = console st @ filter (\<lambda>c. throws (H c)) (registered (bus st) k)"
    using emit_untouched [of st k H payload] by blast
next
  assume e: "registered (bus st) k = []"
  then have "\<forall>c\<in>set (registered (bus st) k). body (H c) = []" by simp
  from emit_quiet [OF this, of payload] show "\<exists>n. \<forall>fuel>n. emit fuel H k payload st = Some st"
    by (simp add: e)
next
  show "map_option (\<lambda>s. (bus s, calls s)) (emit fuel H k payload st) =
     map_option (\<lambda>s. (bus s, calls s)) (emit fuel (without_throws H) k payload st)"
  proof (cases "listeners (bus st) k")
    case None
    then show ?thesis by (simp add: emit_def)
  next
    case (Some r)
    then show ?thesis
      using forEach_throw_independent [OF refl refl, of fuel H payload r 0 st]
      by (simp add: emit_def)
  qed
next
  fix st'
  assume "emit fuel H k payload st = Some st'"
  then show "\<exists>new. calls st' = calls st @ map (\<lambda>c. (c, payload)) new \<and>
             console st' = console st @ filter (\<lambda>c. throws (H c)) new"
  proof (cases "listeners (bus st) k")
    case None
    with \<open>emit fuel H k payload st = Some st'\<close> have "st' = st" by (simp add: emit_def)
    then have "calls st' = calls st @ map (\<lambda>c. (c, payload)) [] \<and>
             console st' = console st @ filter (\<lambda>c. throws (H c)) []" by simp
    then show ?thesis by blast
  next
    case (Some r)
    with \<open>emit fuel H k payload st = Some st'\<close> show ?thesis
      by (simp add: emit_def forEach_console)
  qed
qed

text \<open>
  Callback 0 subscribes to another event type, callback 1 throws, callback 2 clears the
  bus: all three are called in order, and callback 1 is logged.
\<close>

theorem emit_dispatch_witness:
  "\<exists>n. \<forall>fuel>n. \<exists>st'.
      emit fuel busy_callbacks ''date:click'' () (start three_callbacks) = Some st' \<and>
      calls st' = [(0, ()), (1, ()), (2, ())] \<and> console st' = [1]"
proof -
  have "\<forall>c\<in>set (registered (bus (start three_callbacks :: unit run)) ''date:click'').
          \<forall>a\<in>set (body (busy_callbacks c)). \<not> touches ''date:click'' a"
    by (simp add: start_def three_callbacks_registered busy_callbacks_def)
  moreover have "wf_bus (bus (start three_callbacks :: unit run))"
    by (simp add: start_def wf_three_callbacks)
  ultimately show ?thesis
    using emit_dispatch [of "start three_callbacks" "''date:click''" busy_callbacks "()"]
    by (simp add: start_def three_callbacks_registered busy_callbacks_def)
qed

text \<open>
  C7 as stated fails: callbacks 0 and 1 are registered when publish is called, callback 0
  unsubscribes callback 1, and callback 1 is not called.
\<close>

theorem emit_dispatch_counterexample:
  "registered (snd (on ''date:click'' 1 (snd (on ''date:click'' 0 new_ChartEventBus))))
     ''date:click'' = [0, 1] \<and>
   map_option (\<lambda>s. map fst (calls s))
     (emit 4 (removes_callback ''date:click'' 1) ''date:click'' ()
        (start (snd (on ''date:click'' 1 (snd (on ''date:click'' 0 new_ChartEventBus))))))
     = Some [0]"
  by code_simp

end
